theory Spec2Isabelle
  imports Main "HOL-Library.Word" "HOL-Library.Multiset"
begin

section \<open>The plugin object: options and the onLog hook\<close>

text \<open>
  \<^verbatim>\<open>AwsLambdaPluginOptions\<close> of \<^verbatim>\<open>packages/plugin/src/index.ts\<close>:
  \<^verbatim>\<open>outFilename?: string | false\<close> and \<^verbatim>\<open>quiet?: boolean\<close>. An optional field is an
  \<open>option\<close>; the union \<^verbatim>\<open>string | false\<close> is a datatype.
\<close>

datatype out_filename = OutFalse | OutName string

record AwsLambdaPluginOptions =
  outFilename :: "out_filename option"
  quiet :: "bool option"

definition PLUGIN_NAME :: string where
  "PLUGIN_NAME = ''vite-plugin-aws-lambda''"

text \<open>The destructuring default \<^verbatim>\<open>quiet = false\<close> of the plugin factory.\<close>

definition quiet_of :: "AwsLambdaPluginOptions \<Rightarrow> bool" where
  "quiet_of opts = (case quiet opts of None \<Rightarrow> False | Some q \<Rightarrow> q)"

text \<open>
  A Rollup log record. Only \<^verbatim>\<open>log.plugin\<close> is read by the hook; it is an optional
  string (absent on logs that no plugin emitted).
\<close>

record rollup_log =
  plugin :: "string option"
  message :: string

datatype log_level = Info | Warn | Debug

text \<open>\<^verbatim>\<open>onLog(level, log) { return log.plugin !== PLUGIN_NAME || !quiet; }\<close>\<close>

definition onLog :: "AwsLambdaPluginOptions \<Rightarrow> log_level \<Rightarrow> rollup_log \<Rightarrow> bool" where
  "onLog opts level log = (plugin log \<noteq> Some PLUGIN_NAME \<or> \<not> quiet_of opts)"


section \<open>getConfigDefaults\<close>

text \<open>
  \<^verbatim>\<open>LibraryOptions\<close> as far as \<^verbatim>\<open>getConfigDefaults\<close> reads it. The entry is passed
  through untouched, so its type is a parameter. \<^verbatim>\<open>fileName\<close> is a string or a function
  of the format and the entry name. Rollup's \<^verbatim>\<open>ExternalOption\<close> is a list of patterns, a
  single pattern, or a predicate on the module specifier.
\<close>

datatype file_name = FileNameString string | FileNameFun "string \<Rightarrow> string \<Rightarrow> string"

datatype pattern = PString string | PRegExp string

datatype external_option =
    ExternalList "pattern list"
  | ExternalOne pattern
  | ExternalFun "string \<Rightarrow> bool"

record 'e LibraryOptions =
  entry :: 'e
  formats :: "string list option"
  fileName :: "file_name option"

record RollupOptions =
  external :: "external_option option"

text \<open>The object \<^verbatim>\<open>{ build: { lib: {...}, rollupOptions: {...} } }\<close> that is returned.\<close>

record 'e lib_defaults =
  lib_entry :: 'e
  lib_formats :: "string list"
  lib_fileName :: file_name

record 'e build_defaults =
  lib :: "'e lib_defaults"
  rollup_external :: external_option

text \<open>
  The default file name rule:
  \<^verbatim>\<open>(format, name) => format === 'es' || format === 'esm' || format === 'module'
       ? `${name}.mjs` : `${name}.js`\<close>
\<close>

definition default_fileName :: "string \<Rightarrow> string \<Rightarrow> string" where
  "default_fileName format nm =
     (if format = ''es'' \<or> format = ''esm'' \<or> format = ''module''
      then nm @ ''.mjs'' else nm @ ''.js'')"

text \<open>
  \<^verbatim>\<open>a ?? b\<close> is \<open>b\<close> when \<open>a\<close> is null or undefined and \<open>a\<close> otherwise.
  \<^verbatim>\<open>module.isBuiltin\<close> belongs to the host runtime and is a parameter \<open>isBuiltin\<close>.
\<close>

definition nullish :: "'a option \<Rightarrow> 'a \<Rightarrow> 'a" where
  "nullish a b = (case a of None \<Rightarrow> b | Some v \<Rightarrow> v)"

definition getConfigDefaults ::
  "(string \<Rightarrow> bool) \<Rightarrow> 'e LibraryOptions \<Rightarrow> RollupOptions option \<Rightarrow> 'e build_defaults" where
  "getConfigDefaults isBuiltin l rollupOptions =
     \<lparr> lib = \<lparr> lib_entry = entry l,
               lib_formats = nullish (formats l) [''es''],
               lib_fileName = nullish (fileName l) (FileNameFun default_fileName) \<rparr>,
       rollup_external =
         nullish (case rollupOptions of None \<Rightarrow> None | Some ro \<Rightarrow> external ro)
                 (ExternalFun isBuiltin) \<rparr>"


section \<open>zipDir\<close>

subsection \<open>The host: paths, the file system, the directory stream\<close>

text \<open>
  A JavaScript error value; \<^verbatim>\<open>err?.code\<close> is its optional code.
\<close>

record error =
  err_code :: "string option"
  err_message :: string

type_synonym bytes = "8 word list"

text \<open>\<^verbatim>\<open>fs.Stats\<close>: only \<^verbatim>\<open>mtime\<close> is read (milliseconds since the epoch).\<close>

record stats =
  mtime :: int

text \<open>
  \<^verbatim>\<open>fs.Dirent\<close>. \<^verbatim>\<open>isFile()\<close> and \<^verbatim>\<open>isDirectory()\<close> test the entry's type; the
  other types answer false to both.
\<close>

datatype dirent_kind =
  KFile | KDirectory | KSymbolicLink | KFIFO | KSocket | KBlockDevice | KCharacterDevice | KUnknown

record dirent =
  parentPath :: "string option"
  path :: string
  name :: string
  kind :: dirent_kind

definition isDirectory :: "dirent \<Rightarrow> bool" where
  "isDirectory e = (kind e = KDirectory)"

definition isFile :: "dirent \<Rightarrow> bool" where
  "isFile e = (kind e = KFile)"

text \<open>
  The directory stream returned by \<^verbatim>\<open>fs.opendir(inDir, { recursive: true })\<close>: the
  entries the async iterator yields, the error it raises after them (if any), and the
  outcome of \<^verbatim>\<open>entries.close()\<close>.
\<close>

record dir_stream =
  items :: "dirent list"
  failure :: "error option"
  close_result :: "error option"

text \<open>
  Everything \<^verbatim>\<open>zipDir\<close> calls on the host runtime: \<^verbatim>\<open>path.resolve\<close> (two
  arguments), \<^verbatim>\<open>path.relative\<close>, \<^verbatim>\<open>path.dirname\<close>, and the \<^verbatim>\<open>fs/promises\<close>
  functions, each returning its value or the error it rejects with.
\<close>

record host =
  resolve :: "string \<Rightarrow> string \<Rightarrow> string"
  relative :: "string \<Rightarrow> string \<Rightarrow> string"
  dirname :: "string \<Rightarrow> string"
  opendir :: "string \<Rightarrow> error + dir_stream"
  stat :: "string \<Rightarrow> error + stats"
  readFile :: "string \<Rightarrow> error + bytes"
  mkdir :: "string \<Rightarrow> error option"
  writeFile :: "string \<Rightarrow> error option"

subsection \<open>The archive and the observable effects\<close>

text \<open>
  The archive is modelled at the interface to the compression library: a member is the
  argument tuple of one \<^verbatim>\<open>zip.file(name, data, { dir, date })\<close> call. What the
  library makes of a call (how it stores a directory name, the codec) is the library's.
\<close>

record member =
  relativePath :: string
  content :: "bytes option"
  dir :: bool
  date :: int

text \<open>
  \<^verbatim>\<open>zip.generateNodeStream({ compression: 'DEFLATE', compressionOptions: { level: 9 } })\<close>:
  the members with the compression settings; the codec is the library's.
\<close>

record archive =
  members :: "member list"
  compression :: string
  compression_level :: nat

datatype fs_op =
    OpOpendir string
  | OpStat string
  | OpReadFile string
  | OpClose
  | OpMkdir string
  | OpWriteFile string archive

text \<open>
  The effects of a run, in order: the members added to the \<^verbatim>\<open>JSZip\<close> object, the
  arguments of the \<^verbatim>\<open>onFile\<close> invocations, and the file system operations issued.
  \<^verbatim>\<open>onFile\<close> is an argument of \<^verbatim>\<open>zipDir\<close> (the plugin passes
  \<^verbatim>\<open>(filename) => this.info(filename)\<close>); what the callback does is the caller's, so
  an invocation is recorded with its argument. The file system is the one the host
  record describes for the whole run.
\<close>

record world =
  zip_members :: "member list"
  onFile_calls :: "string list"
  fs_ops :: "fs_op list"

definition world0 :: world where
  "world0 = \<lparr> zip_members = [], onFile_calls = [], fs_ops = [] \<rparr>"

definition issue :: "fs_op \<Rightarrow> world \<Rightarrow> world" where
  "issue op w = w\<lparr> fs_ops := fs_ops w @ [op] \<rparr>"

definition zip_file :: "member \<Rightarrow> world \<Rightarrow> world" where
  "zip_file m w = w\<lparr> zip_members := zip_members w @ [m] \<rparr>"

definition onFile :: "string \<Rightarrow> world \<Rightarrow> world" where
  "onFile f w = w\<lparr> onFile_calls := onFile_calls w @ [f] \<rparr>"

subsection \<open>The loop body\<close>

text \<open>
  \<^verbatim>\<open>const parentPath = (entry as any).parentPath ?? entry.path;
  const filename = path.resolve(parentPath, entry.name);
  const relativeFilename = path.relative(inDir, filename);\<close>
\<close>

definition filename_of :: "host \<Rightarrow> dirent \<Rightarrow> string" where
  "filename_of H e = resolve H (nullish (parentPath e) (path e)) (name e)"

definition relativeFilename_of :: "host \<Rightarrow> string \<Rightarrow> dirent \<Rightarrow> string" where
  "relativeFilename_of H inDir e = relative H inDir (filename_of H e)"

text \<open>
  One iteration. The result is the world after it and the error thrown, if any.
  \<^verbatim>\<open>Promise.all([fs.stat(filename), fs.readFile(filename)])\<close> issues both reads and
  rejects when one of them does (the stat's error is taken when both fail).
\<close>

definition zipDir_entry :: "host \<Rightarrow> string \<Rightarrow> string \<Rightarrow> dirent \<Rightarrow> world \<Rightarrow> world \<times> error option" where
  "zipDir_entry H inDir outFile e w =
     (let filename = filename_of H e;
          relativeFilename = relative H inDir filename
      in if filename = outFile then (w, None)
         else if isDirectory e then
           (let w1 = issue (OpStat filename) w
            in case stat H filename of
                 Inl err \<Rightarrow> (w1, Some err)
               | Inr st \<Rightarrow>
                   (zip_file \<lparr> relativePath = relativeFilename, content = None,
                               dir = True, date = mtime st \<rparr> w1, None))
         else if isFile e then
           (let w1 = issue (OpReadFile filename) (issue (OpStat filename) w)
            in case stat H filename of
                 Inl err \<Rightarrow> (w1, Some err)
               | Inr st \<Rightarrow>
                   (case readFile H filename of
                      Inl err \<Rightarrow> (w1, Some err)
                    | Inr bs \<Rightarrow>
                        (zip_file \<lparr> relativePath = relativeFilename, content = Some bs,
                                    dir = False, date = mtime st \<rparr>
                           (onFile relativeFilename w1), None)))
         else (w, None))"

text \<open>\<^verbatim>\<open>for await (const entry of entries) { ... }\<close> over the entries yielded.\<close>

fun zipDir_loop :: "host \<Rightarrow> string \<Rightarrow> string \<Rightarrow> dirent list \<Rightarrow> world \<Rightarrow> world \<times> error option" where
  "zipDir_loop H inDir outFile [] w = (w, None)"
| "zipDir_loop H inDir outFile (e # es) w =
     (case zipDir_entry H inDir outFile e w of
        (w', Some err) \<Rightarrow> (w', Some err)
      | (w', None) \<Rightarrow> zipDir_loop H inDir outFile es w')"

text \<open>The \<^verbatim>\<open>try\<close> block: the loop, then the error of the iterator itself.\<close>

definition zipDir_try :: "host \<Rightarrow> string \<Rightarrow> string \<Rightarrow> dir_stream \<Rightarrow> world \<Rightarrow> world \<times> error option" where
  "zipDir_try H inDir outFile entries w =
     (case zipDir_loop H inDir outFile (items entries) w of
        (w', Some err) \<Rightarrow> (w', Some err)
      | (w', None) \<Rightarrow> (w', failure entries))"

text \<open>
  The \<^verbatim>\<open>finally\<close> block:
  \<^verbatim>\<open>await entries.close().catch((err) => { if (err?.code !== 'ERR_DIR_CLOSED') throw err; })\<close>.
  An error thrown by a \<^verbatim>\<open>finally\<close> block replaces the one pending from the
  \<^verbatim>\<open>try\<close> block; otherwise the pending one is rethrown.
\<close>

definition zipDir_finally :: "dir_stream \<Rightarrow> world \<times> error option \<Rightarrow> world \<times> error option" where
  "zipDir_finally entries r =
     (let w1 = issue OpClose (fst r)
      in case close_result entries of
           None \<Rightarrow> (w1, snd r)
         | Some err \<Rightarrow>
             if err_code err \<noteq> Some ''ERR_DIR_CLOSED'' then (w1, Some err)
             else (w1, snd r))"

definition generateNodeStream :: "member list \<Rightarrow> archive" where
  "generateNodeStream ms = \<lparr> members = ms, compression = ''DEFLATE'', compression_level = 9 \<rparr>"

text \<open>
  \<^verbatim>\<open>await fs.mkdir(path.dirname(outFilename), { recursive: true });
  await fs.writeFile(outFilename, readable);\<close>
\<close>

definition zipDir_write :: "host \<Rightarrow> string \<Rightarrow> world \<Rightarrow> world \<times> error option" where
  "zipDir_write H outFile w =
     (let d = dirname H outFile;
          w1 = issue (OpMkdir d) w
      in case mkdir H d of
           Some err \<Rightarrow> (w1, Some err)
         | None \<Rightarrow>
             (let w2 = issue (OpWriteFile outFile (generateNodeStream (zip_members w1))) w1
              in (w2, writeFile H outFile)))"

definition zipDir :: "host \<Rightarrow> string \<Rightarrow> string \<Rightarrow> world \<times> error option" where
  "zipDir H inDir outFile =
     (let w0 = issue (OpOpendir inDir) world0
      in case opendir H inDir of
           Inl err \<Rightarrow> (w0, Some err)
         | Inr entries \<Rightarrow>
             (case zipDir_finally entries (zipDir_try H inDir outFile entries w0) of
                (w, Some err) \<Rightarrow> (w, Some err)
              | (w, None) \<Rightarrow> zipDir_write H outFile w))"

subsection \<open>Vocabulary of the statements\<close>

text \<open>
  \<open>archives_entry H inDir e m\<close>: the member \<open>m\<close> is the one that the loop body adds for
  the entry \<open>e\<close>: its name is the entry's path relative to \<open>inDir\<close>, its date is the
  \<^verbatim>\<open>mtime\<close> that \<^verbatim>\<open>fs.stat\<close> returns, a directory has \<^verbatim>\<open>dir: true\<close> and null
  content, a file has the bytes that \<^verbatim>\<open>fs.readFile\<close> returns.
\<close>

definition archives_entry :: "host \<Rightarrow> string \<Rightarrow> dirent \<Rightarrow> member \<Rightarrow> bool" where
  "archives_entry H inDir e m \<longleftrightarrow>
     relativePath m = relativeFilename_of H inDir e \<and>
     (case stat H (filename_of H e) of Inl _ \<Rightarrow> False | Inr st \<Rightarrow> date m = mtime st) \<and>
     (if isDirectory e then dir m \<and> content m = None
      else isFile e \<and> \<not> dir m \<and>
           (case readFile H (filename_of H e) of
              Inl _ \<Rightarrow> False | Inr bs \<Rightarrow> content m = Some bs))"

text \<open>The entries that the loop body does not pass over.\<close>

definition archived :: "host \<Rightarrow> string \<Rightarrow> dirent \<Rightarrow> bool" where
  "archived H outFile e \<longleftrightarrow> filename_of H e \<noteq> outFile \<and> (isDirectory e \<or> isFile e)"

text \<open>The world at the end of the loop of a run whose directory stream is \<open>s\<close>.\<close>

definition loop_world :: "host \<Rightarrow> string \<Rightarrow> string \<Rightarrow> dir_stream \<Rightarrow> world \<times> error option" where
  "loop_world H inDir outFile s =
     zipDir_loop H inDir outFile (items s) (issue (OpOpendir inDir) world0)"

text \<open>
  The error with which the \<^verbatim>\<open>try\<close> block ends, given the one of the loop, and the
  error with which the \<^verbatim>\<open>finally\<close> block ends, given the one pending.
\<close>

definition try_result :: "dir_stream \<Rightarrow> error option \<Rightarrow> error option" where
  "try_result s rl = (case rl of Some e \<Rightarrow> Some e | None \<Rightarrow> failure s)"

definition finally_result :: "dir_stream \<Rightarrow> error option \<Rightarrow> error option" where
  "finally_result s r =
     (case close_result s of
        None \<Rightarrow> r
      | Some err \<Rightarrow> if err_code err \<noteq> Some ''ERR_DIR_CLOSED'' then Some err else r)"

text \<open>
  \<open>op_succeeded H op\<close>: the host answered the operation \<open>op\<close> without an error. The
  outcome of \<^verbatim>\<open>entries.close()\<close> belongs to the stream and is not decided here.
\<close>

definition op_succeeded :: "host \<Rightarrow> fs_op \<Rightarrow> bool" where
  "op_succeeded H op =
     (case op of
        OpOpendir d \<Rightarrow> \<not> isl (opendir H d)
      | OpStat f \<Rightarrow> \<not> isl (stat H f)
      | OpReadFile f \<Rightarrow> \<not> isl (readFile H f)
      | OpClose \<Rightarrow> True
      | OpMkdir d \<Rightarrow> mkdir H d = None
      | OpWriteFile f a \<Rightarrow> writeFile H f = None)"

section \<open>The host's path module\<close>

text \<open>
  \<^verbatim>\<open>node:path\<close> is part of the host runtime, not of the plugin, and \<open>zipDir\<close> takes it
  through the \<open>host\<close> record. The statements that depend on the shape of the paths need
  a host to speak about, so the two flavours are modelled here on path segments:
  a path is split at the separator, the segments are normalised (empty segments and
  \<^verbatim>\<open>.\<close> are dropped, \<^verbatim>\<open>..\<close> removes the segment before it), and joined again.
\<close>

fun split_on :: "char \<Rightarrow> string \<Rightarrow> string list" where
  "split_on c [] = [[]]"
| "split_on c (x # xs) =
     (if x = c then [] # split_on c xs
      else (x # hd (split_on c xs)) # tl (split_on c xs))"

fun join_with :: "string \<Rightarrow> string list \<Rightarrow> string" where
  "join_with sep [] = []"
| "join_with sep [s] = s"
| "join_with sep (s # t # ss) = s @ sep @ join_with sep (t # ss)"

text \<open>
  \<^verbatim>\<open>normalizeString(path, allowAboveRoot, ...)\<close> on segments; \<open>acc\<close> holds the segments
  kept so far.
\<close>

fun normalize_segments :: "bool \<Rightarrow> string list \<Rightarrow> string list \<Rightarrow> string list" where
  "normalize_segments up acc [] = acc"
| "normalize_segments up acc (s # ss) =
     (if s = [] \<or> s = ''.'' then normalize_segments up acc ss
      else if s = ''..'' then
        (if acc \<noteq> [] \<and> last acc \<noteq> ''..'' then normalize_segments up (butlast acc) ss
         else if up then normalize_segments up (acc @ [''..'']) ss
         else normalize_segments up acc ss)
      else normalize_segments up (acc @ [s]) ss)"

text \<open>
  \<^verbatim>\<open>path.posix.resolve(...paths)\<close>: the arguments are taken from the right, each put in
  front of what is there, until one is absolute; the working directory \<open>cwd\<close> comes
  last. Empty arguments are skipped.
\<close>

fun resolve_scan :: "string list \<Rightarrow> string \<Rightarrow> string \<times> bool" where
  "resolve_scan [] acc = (acc, False)"
| "resolve_scan (p # ps) acc =
     (if p = [] then resolve_scan ps acc
      else if hd p = CHR ''/'' then (p @ ''/'' @ acc, True)
      else resolve_scan ps (p @ ''/'' @ acc))"

definition posix_resolve :: "string \<Rightarrow> string list \<Rightarrow> string" where
  "posix_resolve cwd paths =
     (case resolve_scan (rev paths @ [cwd]) [] of
        (p, absolute) \<Rightarrow>
          (let r = join_with ''/'' (normalize_segments (\<not> absolute) [] (split_on (CHR ''/'') p))
           in if absolute then CHR ''/'' # r else if r = [] then ''.'' else r))"

text \<open>The segments of a resolved path.\<close>

definition path_segments :: "string \<Rightarrow> string list" where
  "path_segments p = filter (\<lambda>s. s \<noteq> []) (split_on (CHR ''/'') p)"

fun strip_common :: "'a list \<Rightarrow> 'a list \<Rightarrow> 'a list \<times> 'a list" where
  "strip_common (x # xs) (y # ys) = (if x = y then strip_common xs ys else (x # xs, y # ys))"
| "strip_common xs ys = (xs, ys)"

text \<open>
  \<^verbatim>\<open>path.posix.relative(from, to)\<close>: both are resolved; the segments they share at the
  front are dropped; one \<^verbatim>\<open>..\<close> for each segment left of \<open>from\<close>, then the segments left
  of \<open>to\<close>.
\<close>

definition posix_relative :: "string \<Rightarrow> string \<Rightarrow> string \<Rightarrow> string" where
  "posix_relative cwd from to =
     (if from = to then []
      else let f = posix_resolve cwd [from]; t = posix_resolve cwd [to]
           in if f = t then []
              else (case strip_common (path_segments f) (path_segments t) of
                      (fr, tr) \<Rightarrow> join_with ''/'' (replicate (length fr) ''..'' @ tr)))"

text \<open>
  \<^verbatim>\<open>path.posix.dirname(path)\<close>: the path up to its last separator, trailing separators
  not counted.
\<close>

definition posix_dirname :: "string \<Rightarrow> string" where
  "posix_dirname p =
     (if p = [] then ''.''
      else let hasRoot = (hd p = CHR ''/'');
               trimmed = rev (dropWhile (\<lambda>c. c = CHR ''/'') (rev (tl p)))
           in if CHR ''/'' \<notin> set trimmed then (if hasRoot then ''/'' else ''.'')
              else let keep = rev (tl (dropWhile (\<lambda>c. c \<noteq> CHR ''/'') (rev trimmed)))
                   in if hasRoot \<and> keep = [] then ''//'' else hd p # keep)"

text \<open>A host is a POSIX host when its path functions are the ones above.\<close>

definition posix_paths :: "string \<Rightarrow> host \<Rightarrow> bool" where
  "posix_paths cwd H \<longleftrightarrow>
     resolve H = (\<lambda>a b. posix_resolve cwd [a, b]) \<and> relative H = posix_relative cwd"

text \<open>
  A name that a POSIX directory can hold: not empty, not \<^verbatim>\<open>.\<close> or \<^verbatim>\<open>..\<close>, no separator
  in it. \<open>below d segs\<close> is the path of the directory reached from \<open>d\<close> through \<open>segs\<close>.
\<close>

definition file_name_ok :: "string \<Rightarrow> bool" where
  "file_name_ok s \<longleftrightarrow> s \<noteq> [] \<and> s \<noteq> ''.'' \<and> s \<noteq> ''..'' \<and> CHR ''/'' \<notin> set s"

definition below :: "string \<Rightarrow> string list \<Rightarrow> string" where
  "below d segs = d @ concat (map (\<lambda>s. CHR ''/'' # s) segs)"

subsection \<open>The Windows flavour, for drive-absolute paths\<close>

text \<open>
  \<^verbatim>\<open>path.win32\<close> is modelled for the paths a build on Windows hands to \<open>zipDir\<close>: a
  drive letter, a colon, a separator, then segments. Both separators split, the result
  is joined with backslashes. Paths of another shape (relative to the working
  directory, UNC, drive-relative) are outside this fragment: \<open>win32_resolve\<close> joins
  them as they are, \<open>win32_relative\<close> returns \<open>to\<close>. Node compares the two resolved
  paths ignoring case; the fragment compares them as they are spelled.
\<close>

definition backslash :: char where
  "backslash = CHR 0x5C"

definition win32_split :: "string \<Rightarrow> string list" where
  "win32_split p = split_on backslash (map (\<lambda>c. if c = CHR ''/'' then backslash else c) p)"

definition is_letter :: "char \<Rightarrow> bool" where
  "is_letter c = (let n = (of_char c :: nat) in (65 \<le> n \<and> n \<le> 90) \<or> (97 \<le> n \<and> n \<le> 122))"

definition win32_drive :: "string \<Rightarrow> (string \<times> string) option" where
  "win32_drive p =
     (case p of
        d # c # s # rest \<Rightarrow>
          if is_letter d \<and> c = CHR '':'' \<and> (s = backslash \<or> s = CHR ''/'')
          then Some ([d, c], rest) else None
      | _ \<Rightarrow> None)"

definition win32_join :: "string \<Rightarrow> string list \<Rightarrow> string" where
  "win32_join device segs = device @ [backslash] @ join_with [backslash] segs"

definition win32_resolve :: "string \<Rightarrow> string \<Rightarrow> string" where
  "win32_resolve a b =
     (case win32_drive b of
        Some (device, rest) \<Rightarrow>
          win32_join device (normalize_segments False [] (win32_split rest))
      | None \<Rightarrow>
          (case win32_drive a of
             Some (device, rest) \<Rightarrow>
               win32_join device
                 (normalize_segments False []
                    (win32_split
                       (if b \<noteq> [] \<and> (hd b = backslash \<or> hd b = CHR ''/'') then b
                        else rest @ [backslash] @ b)))
           | None \<Rightarrow> a @ [backslash] @ b))"

definition win32_relative :: "string \<Rightarrow> string \<Rightarrow> string" where
  "win32_relative from to =
     (if from = to then []
      else (case (win32_drive from, win32_drive to) of
              (Some (fd, frest), Some (td, trest)) \<Rightarrow>
                (let fs = normalize_segments False [] (win32_split frest);
                     ts = normalize_segments False [] (win32_split trest)
                 in if fd \<noteq> td then win32_join td ts
                    else if fs = ts then []
                    else (case strip_common fs ts of
                            (fr, tr) \<Rightarrow>
                              join_with [backslash] (replicate (length fr) ''..'' @ tr)))
            | _ \<Rightarrow> to))"


section \<open>Example hosts\<close>

text \<open>
  A host for the concrete runs: the path functions given, a directory stream with the
  entries given that closes itself when it is exhausted (so that \<^verbatim>\<open>entries.close()\<close>
  rejects with \<^verbatim>\<open>ERR_DIR_CLOSED\<close>, as Node's does), and a file system given as a
  table from absolute paths to the modification time and, for a file, its bytes.
\<close>

definition ERR_DIR_CLOSED :: error where
  "ERR_DIR_CLOSED = \<lparr> err_code = Some ''ERR_DIR_CLOSED'', err_message = ''Directory handle was closed'' \<rparr>"

definition ENOENT :: error where
  "ENOENT = \<lparr> err_code = Some ''ENOENT'', err_message = ''no such file or directory'' \<rparr>"

definition EISDIR :: error where
  "EISDIR = \<lparr> err_code = Some ''EISDIR'', err_message = ''illegal operation on a directory'' \<rparr>"

definition EIO :: error where
  "EIO = \<lparr> err_code = Some ''EIO'', err_message = ''i/o error'' \<rparr>"

definition table_host ::
  "(string \<Rightarrow> string \<Rightarrow> string) \<Rightarrow> (string \<Rightarrow> string \<Rightarrow> string) \<Rightarrow> (string \<Rightarrow> string) \<Rightarrow>
   dir_stream \<Rightarrow> (string \<times> int \<times> bytes option) list \<Rightarrow> host" where
  "table_host res rel dn s files =
     \<lparr> resolve = res, relative = rel, dirname = dn,
       opendir = (\<lambda>d. Inr s),
       stat = (\<lambda>p. case map_of files p of
                      None \<Rightarrow> Inl ENOENT
                    | Some (t, c) \<Rightarrow> Inr \<lparr> mtime = t \<rparr>),
       readFile = (\<lambda>p. case map_of files p of
                          None \<Rightarrow> Inl ENOENT
                        | Some (t, None) \<Rightarrow> Inl EISDIR
                        | Some (t, Some bs) \<Rightarrow> Inr bs),
       mkdir = (\<lambda>d. None),
       writeFile = (\<lambda>f. None) \<rparr>"

definition posix_table_host :: "dir_stream \<Rightarrow> (string \<times> int \<times> bytes option) list \<Rightarrow> host" where
  "posix_table_host s files =
     table_host (\<lambda>a b. posix_resolve ''/'' [a, b]) (posix_relative ''/'') posix_dirname s files"

definition closing_stream :: "dirent list \<Rightarrow> dir_stream" where
  "closing_stream es = \<lparr> items = es, failure = None, close_result = Some ERR_DIR_CLOSED \<rparr>"

definition dirent_in :: "string \<Rightarrow> string \<Rightarrow> dirent_kind \<Rightarrow> dirent" where
  "dirent_in parent nm k = \<lparr> parentPath = Some parent, path = parent, name = nm, kind = k \<rparr>"

text \<open>
  The output directory \<^verbatim>\<open>/dist\<close> of a build: \<^verbatim>\<open>a.txt\<close>, the directory \<^verbatim>\<open>b\<close> with
  \<^verbatim>\<open>b/c.txt\<close>, a symbolic link \<^verbatim>\<open>latest\<close>, and the archive \<^verbatim>\<open>foo.zip\<close> of an earlier
  run (the demo package configures \<^verbatim>\<open>outFilename: 'foo.zip'\<close>, inside the output
  directory).
\<close>

definition hello :: bytes where
  "hello = [104, 101, 108, 108, 111]"

definition world_bytes :: bytes where
  "world_bytes = [119, 111, 114, 108, 100]"

definition dist_entries :: "dirent list" where
  "dist_entries =
     [dirent_in ''/dist'' ''a.txt'' KFile,
      dirent_in ''/dist'' ''b'' KDirectory,
      dirent_in ''/dist'' ''foo.zip'' KFile,
      dirent_in ''/dist'' ''latest'' KSymbolicLink,
      dirent_in ''/dist/b'' ''c.txt'' KFile]"

definition dist_files :: "(string \<times> int \<times> bytes option) list" where
  "dist_files =
     [(''/dist/a.txt'', 1000, Some hello),
      (''/dist/b'', 3000, None),
      (''/dist/foo.zip'', 500, Some [80, 75, 5, 6]),
      (''/dist/latest'', 1000, Some hello),
      (''/dist/b/c.txt'', 2000, Some world_bytes)]"

definition dist_host :: host where
  "dist_host = posix_table_host (closing_stream dist_entries) dist_files"

text \<open>A registry of built-in modules and a library configuration with only the entry.\<close>

definition node_builtins :: "string \<Rightarrow> bool" where
  "node_builtins s = (s \<in> set [''fs'', ''node:fs'', ''path'', ''node:path''])"

definition entry_only :: "string LibraryOptions" where
  "entry_only = \<lparr> entry = ''./index.ts'', formats = None, fileName = None \<rparr>"

text \<open>
  The same directory with a stream whose \<^verbatim>\<open>close()\<close> rejects with an i/o error, and
  with a stream that lists a file \<^verbatim>\<open>gone.js\<close> which is no longer on disk.
\<close>

definition eio_close_host :: host where
  "eio_close_host =
     posix_table_host \<lparr> items = dist_entries, failure = None, close_result = Some EIO \<rparr> dist_files"

definition vanished_host :: host where
  "vanished_host =
     posix_table_host (closing_stream (dist_entries @ [dirent_in ''/dist'' ''gone.js'' KFile]))
       dist_files"

text \<open>
  A build on Windows: the output directory \<^verbatim>\<open>C:\proj\dist\<close> with \<^verbatim>\<open>a.txt\<close> and the
  directory \<^verbatim>\<open>b\<close> holding \<^verbatim>\<open>c.txt\<close>.
\<close>

definition win32_dirname :: "string \<Rightarrow> string" where
  "win32_dirname p =
     (case win32_drive p of
        Some (device, rest) \<Rightarrow>
          win32_join device (butlast (normalize_segments False [] (win32_split rest)))
      | None \<Rightarrow> ''.'')"

definition win_dist :: string where
  "win_dist = ''C:'' @ [backslash] @ ''proj'' @ [backslash] @ ''dist''"

definition win_entries :: "dirent list" where
  "win_entries =
     [dirent_in win_dist ''a.txt'' KFile,
      dirent_in win_dist ''b'' KDirectory,
      dirent_in (win_dist @ [backslash] @ ''b'') ''c.txt'' KFile]"

definition win_files :: "(string \<times> int \<times> bytes option) list" where
  "win_files =
     [(win_dist @ [backslash] @ ''a.txt'', 1000, Some hello),
      (win_dist @ [backslash] @ ''b'', 3000, None),
      (win_dist @ [backslash] @ ''b'' @ [backslash] @ ''c.txt'', 2000, Some world_bytes)]"

definition win_host :: host where
  "win_host =
     table_host win32_resolve win32_relative win32_dirname (closing_stream win_entries) win_files"

text \<open>
  The directory \<^verbatim>\<open>/dist\<close> before the first run: as above, without \<^verbatim>\<open>foo.zip\<close>, and
  listed in another order.
\<close>

definition fresh_entries :: "dirent list" where
  "fresh_entries =
     [dirent_in ''/dist'' ''b'' KDirectory,
      dirent_in ''/dist/b'' ''c.txt'' KFile,
      dirent_in ''/dist'' ''latest'' KSymbolicLink,
      dirent_in ''/dist'' ''a.txt'' KFile]"

definition fresh_files :: "(string \<times> int \<times> bytes option) list" where
  "fresh_files =
     [(''/dist/a.txt'', 1000, Some hello),
      (''/dist/b'', 3000, None),
      (''/dist/latest'', 1000, Some hello),
      (''/dist/b/c.txt'', 2000, Some world_bytes)]"

definition fresh_host :: host where
  "fresh_host = posix_table_host (closing_stream fresh_entries) fresh_files"


section \<open>The loop, entry by entry\<close>

lemma zipDir_entry_skip_dest:
  "filename_of H e = outFile \<Longrightarrow> zipDir_entry H inDir outFile e w = (w, None)"
  by (simp add: zipDir_entry_def Let_def)

lemma zipDir_entry_skip_other:
  "\<not> isDirectory e \<Longrightarrow> \<not> isFile e \<Longrightarrow> zipDir_entry H inDir outFile e w = (w, None)"
  by (simp add: zipDir_entry_def Let_def)

lemma zipDir_loop_filter:
  assumes "\<And>e w. e \<in> set es \<Longrightarrow> \<not> P e \<Longrightarrow> zipDir_entry H inDir outFile e w = (w, None)"
  shows "zipDir_loop H inDir outFile es w = zipDir_loop H inDir outFile (filter P es) w"
  using assms
proof (induction es arbitrary: w)
  case Nil
  then show ?case by simp
next
  case (Cons e es)
  show ?case
  proof (cases "P e")
    case True
    then show ?thesis using Cons by (simp split: prod.splits option.splits)
  next
    case False
    then have "zipDir_entry H inDir outFile e w = (w, None)" using Cons.prems by simp
    then show ?thesis using False Cons by simp
  qed
qed

text \<open>What one iteration can do, case by case.\<close>

lemma zipDir_entry_cases:
  assumes "zipDir_entry H inDir outFile e w = (w', r)"
  obtains
    (skip) "filename_of H e = outFile \<or> (\<not> isDirectory e \<and> \<not> isFile e)" "w' = w" "r = None"
  | (dir_ok) st where "filename_of H e \<noteq> outFile" "isDirectory e"
      "stat H (filename_of H e) = Inr st" "r = None"
      "w' = zip_file \<lparr> relativePath = relativeFilename_of H inDir e, content = None,
                        dir = True, date = mtime st \<rparr> (issue (OpStat (filename_of H e)) w)"
  | (dir_err) err where "filename_of H e \<noteq> outFile" "isDirectory e"
      "stat H (filename_of H e) = Inl err" "r = Some err"
      "w' = issue (OpStat (filename_of H e)) w"
  | (file_ok) st bs where "filename_of H e \<noteq> outFile" "\<not> isDirectory e" "isFile e"
      "stat H (filename_of H e) = Inr st" "readFile H (filename_of H e) = Inr bs" "r = None"
      "w' = zip_file \<lparr> relativePath = relativeFilename_of H inDir e, content = Some bs,
                        dir = False, date = mtime st \<rparr>
              (onFile (relativeFilename_of H inDir e)
                 (issue (OpReadFile (filename_of H e)) (issue (OpStat (filename_of H e)) w)))"
  | (file_err) err where "filename_of H e \<noteq> outFile" "\<not> isDirectory e" "isFile e"
      "stat H (filename_of H e) = Inl err \<or>
       (\<exists>st. stat H (filename_of H e) = Inr st \<and> readFile H (filename_of H e) = Inl err)"
      "r = Some err"
      "w' = issue (OpReadFile (filename_of H e)) (issue (OpStat (filename_of H e)) w)"
  using assms
  by (auto simp: zipDir_entry_def relativeFilename_of_def Let_def split: if_splits sum.splits)

lemma zipDir_entry_effects:
  assumes "zipDir_entry H inDir outFile e w = (w', r)"
  shows "\<exists>ms ops.
           zip_members w' = zip_members w @ ms \<and>
           onFile_calls w' = onFile_calls w @ map relativePath (filter (\<lambda>m. \<not> dir m) ms) \<and>
           fs_ops w' = fs_ops w @ ops \<and>
           (\<forall>m\<in>set ms. archived H outFile e \<and> archives_entry H inDir e m) \<and>
           (\<forall>op\<in>set ops. archived H outFile e \<and>
                (op = OpStat (filename_of H e) \<or> (isFile e \<and> op = OpReadFile (filename_of H e)))) \<and>
           (r = None \<longrightarrow>
              (if archived H outFile e then \<exists>m. ms = [m] else ms = []) \<and>
              (\<forall>p\<in>set ops. op_succeeded H p))"
  using assms
proof (cases rule: zipDir_entry_cases)
  case skip
  then show ?thesis by (auto simp: archived_def)
next
  case (dir_ok st)
  then show ?thesis
    by (auto simp: archived_def archives_entry_def issue_def zip_file_def op_succeeded_def)
next
  case (dir_err err)
  then show ?thesis
    by (auto simp: archived_def issue_def)
next
  case (file_ok st bs)
  then show ?thesis
    by (auto simp: archived_def archives_entry_def issue_def zip_file_def onFile_def op_succeeded_def)
next
  case (file_err err)
  then show ?thesis
    by (auto simp: archived_def issue_def)
qed


lemma zipDir_loop_effects:
  assumes "zipDir_loop H inDir outFile es w = (w', r)"
  shows "\<exists>ms ops.
           zip_members w' = zip_members w @ ms \<and>
           onFile_calls w' = onFile_calls w @ map relativePath (filter (\<lambda>m. \<not> dir m) ms) \<and>
           fs_ops w' = fs_ops w @ ops \<and>
           (\<forall>m\<in>set ms. \<exists>e\<in>set es. archived H outFile e \<and> archives_entry H inDir e m) \<and>
           (\<forall>op\<in>set ops. \<exists>e\<in>set es. archived H outFile e \<and>
                (op = OpStat (filename_of H e) \<or> (isFile e \<and> op = OpReadFile (filename_of H e)))) \<and>
           (r = None \<longrightarrow>
              list_all2 (archives_entry H inDir) (filter (archived H outFile) es) ms \<and>
              (\<forall>p\<in>set ops. op_succeeded H p))"
  using assms
proof (induction es arbitrary: w)
  case Nil
  then show ?case by simp
next
  case (Cons e es)
  obtain w1 r1 where step: "zipDir_entry H inDir outFile e w = (w1, r1)"
    by (cases "zipDir_entry H inDir outFile e w")
  from zipDir_entry_effects [OF step] obtain ms1 ops1 where
    m1: "zip_members w1 = zip_members w @ ms1" and
    c1: "onFile_calls w1 = onFile_calls w @ map relativePath (filter (\<lambda>m. \<not> dir m) ms1)" and
    o1: "fs_ops w1 = fs_ops w @ ops1" and
    p1: "\<forall>m\<in>set ms1. archived H outFile e \<and> archives_entry H inDir e m" and
    q1: "\<forall>op\<in>set ops1. archived H outFile e \<and>
           (op = OpStat (filename_of H e) \<or> (isFile e \<and> op = OpReadFile (filename_of H e)))" and
    s1: "r1 = None \<longrightarrow> (if archived H outFile e then \<exists>m. ms1 = [m] else ms1 = []) \<and>
           (\<forall>p\<in>set ops1. op_succeeded H p)"
    by blast
  show ?case
  proof (cases r1)
    case (Some err)
    with step Cons.prems have "w' = w1" "r = Some err" by simp_all
    with m1 c1 o1 p1 q1 show ?thesis
      by (intro exI [of _ ms1] exI [of _ ops1]) auto
  next
    case None
    with step Cons.prems have rest: "zipDir_loop H inDir outFile es w1 = (w', r)" by simp
    from Cons.IH [OF rest] obtain ms2 ops2 where
      m2: "zip_members w' = zip_members w1 @ ms2" and
      c2: "onFile_calls w' = onFile_calls w1 @ map relativePath (filter (\<lambda>m. \<not> dir m) ms2)" and
      o2: "fs_ops w' = fs_ops w1 @ ops2" and
      p2: "\<forall>m\<in>set ms2. \<exists>e\<in>set es. archived H outFile e \<and> archives_entry H inDir e m" and
      q2: "\<forall>op\<in>set ops2. \<exists>e\<in>set es. archived H outFile e \<and>
             (op = OpStat (filename_of H e) \<or> (isFile e \<and> op = OpReadFile (filename_of H e)))" and
      s2: "r = None \<longrightarrow>
             list_all2 (archives_entry H inDir) (filter (archived H outFile) es) ms2 \<and>
             (\<forall>p\<in>set ops2. op_succeeded H p)"
      by blast
    have a: "zip_members w' = zip_members w @ (ms1 @ ms2)" using m1 m2 by simp
    have b: "onFile_calls w' =
               onFile_calls w @ map relativePath (filter (\<lambda>m. \<not> dir m) (ms1 @ ms2))"
      using c1 c2 by simp
    have c: "fs_ops w' = fs_ops w @ (ops1 @ ops2)" using o1 o2 by simp
    have d: "\<forall>m\<in>set (ms1 @ ms2). \<exists>e'\<in>set (e # es).
               archived H outFile e' \<and> archives_entry H inDir e' m"
      using p1 p2 by auto
    have f: "\<forall>op\<in>set (ops1 @ ops2). \<exists>e'\<in>set (e # es). archived H outFile e' \<and>
               (op = OpStat (filename_of H e') \<or>
                (isFile e' \<and> op = OpReadFile (filename_of H e')))"
      using q1 q2 by auto
    have g: "r = None \<longrightarrow>
               list_all2 (archives_entry H inDir) (filter (archived H outFile) (e # es)) (ms1 @ ms2) \<and>
               (\<forall>p\<in>set (ops1 @ ops2). op_succeeded H p)"
    proof
      assume rn: "r = None"
      from s1 None have k: "if archived H outFile e then \<exists>m. ms1 = [m] else ms1 = []"
        and ok1: "\<forall>p\<in>set ops1. op_succeeded H p" by simp_all
      from s2 rn have l2: "list_all2 (archives_entry H inDir) (filter (archived H outFile) es) ms2"
        and ok2: "\<forall>p\<in>set ops2. op_succeeded H p" by simp_all
      have "list_all2 (archives_entry H inDir) (filter (archived H outFile) (e # es)) (ms1 @ ms2)"
      proof (cases "archived H outFile e")
        case True
        with k obtain m where "ms1 = [m]" by auto
        with p1 True l2 show ?thesis by simp
      next
        case False
        with k l2 show ?thesis by simp
      qed
      with ok1 ok2 show "list_all2 (archives_entry H inDir) (filter (archived H outFile) (e # es)) (ms1 @ ms2) \<and>
               (\<forall>p\<in>set (ops1 @ ops2). op_succeeded H p)" by auto
    qed
    from a b c d f g show ?thesis by blast
  qed
qed


section \<open>A whole run\<close>

lemma zipDir_opendir_fails:
  "opendir H inDir = Inl err \<Longrightarrow>
   zipDir H inDir outFile = (issue (OpOpendir inDir) world0, Some err)"
  by (simp add: zipDir_def Let_def)

lemma zipDir_finally_eq:
  "zipDir_finally s (w, r) = (issue OpClose w, finally_result s r)"
  by (simp add: zipDir_finally_def finally_result_def Let_def split: option.splits)

lemma zipDir_try_eq:
  "loop_world H inDir outFile s = (wl, rl) \<Longrightarrow>
   zipDir_try H inDir outFile s (issue (OpOpendir inDir) world0) = (wl, try_result s rl)"
  by (simp add: zipDir_try_def loop_world_def try_result_def split: option.splits)

lemma zipDir_opendir_ok:
  assumes "opendir H inDir = Inr s" and "loop_world H inDir outFile s = (wl, rl)"
  shows "zipDir H inDir outFile =
           (case finally_result s (try_result s rl) of
              Some err \<Rightarrow> (issue OpClose wl, Some err)
            | None \<Rightarrow> zipDir_write H outFile (issue OpClose wl))"
  using assms
  by (simp add: zipDir_def Let_def zipDir_try_eq zipDir_finally_eq split: option.splits)

lemma zipDir_write_effects:
  assumes "zipDir_write H outFile w = (w', r)"
  shows "zip_members w' = zip_members w \<and> onFile_calls w' = onFile_calls w \<and>
         (\<exists>ops. fs_ops w' = fs_ops w @ ops \<and> OpClose \<notin> set ops \<and>
            (r = None \<longrightarrow> (\<forall>op\<in>set ops. op_succeeded H op) \<and>
               ops = [OpMkdir (dirname H outFile),
                      OpWriteFile outFile (generateNodeStream (zip_members w))]))"
  using assms
  by (auto simp: zipDir_write_def Let_def issue_def op_succeeded_def split: option.splits)

lemma loop_world_effects:
  assumes "loop_world H inDir outFile s = (wl, rl)"
  shows "\<exists>ops.
           onFile_calls wl = map relativePath (filter (\<lambda>m. \<not> dir m) (zip_members wl)) \<and>
           fs_ops wl = OpOpendir inDir # ops \<and>
           (\<forall>m\<in>set (zip_members wl). \<exists>e\<in>set (items s).
               archived H outFile e \<and> archives_entry H inDir e m) \<and>
           (\<forall>op\<in>set ops. \<exists>e\<in>set (items s). archived H outFile e \<and>
               (op = OpStat (filename_of H e) \<or>
                (isFile e \<and> op = OpReadFile (filename_of H e)))) \<and>
           (rl = None \<longrightarrow>
              list_all2 (archives_entry H inDir) (filter (archived H outFile) (items s))
                (zip_members wl) \<and>
              (\<forall>p\<in>set ops. op_succeeded H p))"
  using zipDir_loop_effects [OF assms [unfolded loop_world_def]]
  by (simp add: issue_def world0_def)

lemma zipDir_final_world:
  assumes "opendir H inDir = Inr s" and "loop_world H inDir outFile s = (wl, rl)"
  shows "zip_members (fst (zipDir H inDir outFile)) = zip_members wl \<and>
         onFile_calls (fst (zipDir H inDir outFile)) = onFile_calls wl \<and>
         (\<exists>tl. fs_ops (fst (zipDir H inDir outFile)) = fs_ops wl @ OpClose # tl \<and>
               OpClose \<notin> set tl \<and>
               (\<forall>op\<in>set tl. \<forall>f. op \<noteq> OpStat f \<and> op \<noteq> OpReadFile f) \<and>
               (snd (zipDir H inDir outFile) = None \<longrightarrow>
                  (\<forall>op\<in>set tl. op_succeeded H op) \<and>
                  tl = [OpMkdir (dirname H outFile),
                        OpWriteFile outFile (generateNodeStream (zip_members wl))]))"
proof (cases "finally_result s (try_result s rl)")
  case (Some err)
  then have "zipDir H inDir outFile = (issue OpClose wl, Some err)"
    using zipDir_opendir_ok [OF assms] by simp
  then show ?thesis by (simp add: issue_def)
next
  case None
  then have z: "zipDir H inDir outFile = zipDir_write H outFile (issue OpClose wl)"
    using zipDir_opendir_ok [OF assms] by simp
  obtain w' r where wr: "zipDir_write H outFile (issue OpClose wl) = (w', r)"
    by (cases "zipDir_write H outFile (issue OpClose wl)")
  from zipDir_write_effects [OF wr] obtain ops where
    a: "zip_members w' = zip_members (issue OpClose wl)" and
    b: "onFile_calls w' = onFile_calls (issue OpClose wl)" and
    c: "fs_ops w' = fs_ops (issue OpClose wl) @ ops" and
    d: "OpClose \<notin> set ops" and
    e: "r = None \<longrightarrow> (\<forall>op\<in>set ops. op_succeeded H op) \<and>
          ops = [OpMkdir (dirname H outFile),
                 OpWriteFile outFile (generateNodeStream (zip_members (issue OpClose wl)))]"
    by blast
  have f: "\<forall>op\<in>set ops. \<forall>f. op \<noteq> OpStat f \<and> op \<noteq> OpReadFile f"
    using wr c by (auto simp: zipDir_write_def Let_def issue_def split: option.splits)
  have zz: "zipDir H inDir outFile = (w', r)" using z wr by simp
  show ?thesis
    unfolding zz using a b c d e f by (simp add: issue_def)
qed

lemma zipDir_success:
  assumes "opendir H inDir = Inr s" and "loop_world H inDir outFile s = (wl, rl)"
    and "snd (zipDir H inDir outFile) = None"
  shows "rl = None \<and> failure s = None \<and>
         (\<forall>err. close_result s = Some err \<longrightarrow> err_code err = Some ''ERR_DIR_CLOSED'')"
proof -
  have "finally_result s (try_result s rl) = None"
    using zipDir_opendir_ok [OF assms(1,2)] assms(3)
    by (cases "finally_result s (try_result s rl)") simp_all
  then show ?thesis
    by (auto simp: finally_result_def try_result_def split: option.splits if_splits)
qed


section \<open>Paths on a POSIX host\<close>

lemma split_on_not_Nil [simp]: "split_on c xs \<noteq> []"
  by (induction xs) auto

lemma split_on_append_sep:
  "split_on c (xs @ c # ys) = split_on c xs @ split_on c ys"
  by (induction xs) (auto simp: hd_append)

lemma split_on_no_sep: "c \<notin> set s \<Longrightarrow> split_on c s = [s]"
  by (induction s) auto

lemma split_on_segments: "s \<in> set (split_on c xs) \<Longrightarrow> c \<notin> set s"
proof (induction xs arbitrary: s)
  case Nil
  then show ?case by simp
next
  case (Cons x xs)
  show ?case
  proof (cases "x = c")
    case True
    with Cons show ?thesis by auto
  next
    case False
    obtain h t where ht: "split_on c xs = h # t" by (cases "split_on c xs") auto
    with Cons False show ?thesis by auto
  qed
qed

lemma below_Cons: "below d (s # segs) = below (d @ CHR ''/'' # s) segs"
  by (simp add: below_def)

lemma split_on_below:
  "\<forall>s\<in>set segs. CHR ''/'' \<notin> set s \<Longrightarrow>
   split_on (CHR ''/'') (below d segs) = split_on (CHR ''/'') d @ segs"
proof (induction segs arbitrary: d)
  case Nil
  then show ?case by (simp add: below_def)
next
  case (Cons s segs)
  then show ?case
    by (simp add: below_Cons split_on_append_sep split_on_no_sep)
qed

lemma normalize_segments_append_False:
  "normalize_segments False acc (xs @ ys) =
   normalize_segments False (normalize_segments False acc xs) ys"
  by (induction xs arbitrary: acc) simp_all

lemma normalize_segments_ok:
  "\<forall>s\<in>set xs. file_name_ok s \<Longrightarrow> normalize_segments up acc xs = acc @ xs"
  by (induction xs arbitrary: acc) (simp_all add: file_name_ok_def)

lemma normalize_segments_result_ok:
  "\<forall>s\<in>set acc. file_name_ok s \<Longrightarrow> \<forall>s\<in>set xs. CHR ''/'' \<notin> set s \<Longrightarrow>
   \<forall>s\<in>set (normalize_segments False acc xs). file_name_ok s"
proof (induction xs arbitrary: acc)
  case Nil
  then show ?case by simp
next
  case (Cons x xs)
  have rest: "\<forall>s\<in>set xs. CHR ''/'' \<notin> set s" using Cons.prems(2) by simp
  have bl: "\<forall>s\<in>set (butlast acc). file_name_ok s"
    using Cons.prems(1) by (meson in_set_butlastD)
  have ap: "x \<noteq> [] \<Longrightarrow> x \<noteq> ''.'' \<Longrightarrow> x \<noteq> ''..'' \<Longrightarrow> \<forall>s\<in>set (acc @ [x]). file_name_ok s"
    using Cons.prems by (simp add: file_name_ok_def)
  note a = Cons.IH [OF Cons.prems(1) rest]
  note b = Cons.IH [OF bl rest]
  note c = Cons.IH [OF ap rest]
  show ?case
    using a b c by simp
qed

lemma split_on_join_with:
  "\<forall>s\<in>set xs. CHR ''/'' \<notin> set s \<Longrightarrow> xs \<noteq> [] \<Longrightarrow>
   split_on (CHR ''/'') (join_with ''/'' xs) = xs"
proof (induction xs)
  case Nil
  then show ?case by simp
next
  case (Cons s ss)
  show ?case
  proof (cases ss)
    case Nil
    with Cons.prems show ?thesis by (simp add: split_on_no_sep)
  next
    case (Cons t ts)
    have "join_with ''/'' (s # ss) = s @ CHR ''/'' # join_with ''/'' ss"
      using Cons by simp
    then have "split_on (CHR ''/'') (join_with ''/'' (s # ss)) =
                 split_on (CHR ''/'') s @ split_on (CHR ''/'') (join_with ''/'' ss)"
      by (simp only: split_on_append_sep)
    also have "split_on (CHR ''/'') s = [s]"
      using Cons.prems by (simp add: split_on_no_sep)
    also have "split_on (CHR ''/'') (join_with ''/'' ss) = ss"
      using Cons.IH Cons.prems Cons by simp
    finally show ?thesis by simp
  qed
qed

lemma path_segments_join_with:
  assumes "\<forall>s\<in>set xs. file_name_ok s"
  shows "path_segments (CHR ''/'' # join_with ''/'' xs) = xs"
proof (cases xs)
  case Nil
  then show ?thesis by (simp add: path_segments_def)
next
  case (Cons a list)
  have "\<forall>s\<in>set xs. CHR ''/'' \<notin> set s" using assms by (simp add: file_name_ok_def)
  with Cons have "split_on (CHR ''/'') (join_with ''/'' xs) = xs"
    by (simp add: split_on_join_with)
  moreover have "filter (\<lambda>s. s \<noteq> []) xs = xs"
    using assms by (simp add: file_name_ok_def)
  ultimately show ?thesis by (simp add: path_segments_def)
qed

lemma strip_common_append: "strip_common ds (ds @ r) = ([], r)"
  by (induction ds) simp_all

lemma posix_resolve_absolute:
  assumes "p \<noteq> []" and "hd p = CHR ''/''"
  shows "posix_resolve cwd [p] =
           CHR ''/'' # join_with ''/'' (normalize_segments False [] (split_on (CHR ''/'') p))"
proof -
  have "split_on (CHR ''/'') (p @ ''/'') = split_on (CHR ''/'') p @ [[]]"
    using split_on_append_sep [of "CHR ''/''" p "[]"] by simp
  then show ?thesis
    using assms by (simp add: posix_resolve_def normalize_segments_append_False)
qed

lemma file_name_ok_facts:
  assumes "file_name_ok nm"
  shows "nm \<noteq> []" and "hd nm \<noteq> CHR ''/''" and "CHR ''/'' \<notin> set nm"
proof -
  show a: "nm \<noteq> []" using assms by (simp add: file_name_ok_def)
  show b: "CHR ''/'' \<notin> set nm" using assms by (simp add: file_name_ok_def)
  show "hd nm \<noteq> CHR ''/''" using a b by (cases nm) auto
qed

lemma resolve_scan_two:
  assumes "a \<noteq> []" and "hd a = CHR ''/''" and "b \<noteq> []" and "hd b \<noteq> CHR ''/''"
  shows "resolve_scan (rev [a, b] @ [cwd]) [] = (a @ ''/'' @ b @ ''/'', True)"
  using assms by simp

lemma split_on_resolved_pair:
  assumes "\<forall>s\<in>set segs. file_name_ok s" and "file_name_ok nm"
  shows "split_on (CHR ''/'') (below d segs @ ''/'' @ nm @ ''/'') =
           split_on (CHR ''/'') d @ (segs @ [nm]) @ [[]]"
proof -
  have seg: "\<forall>s\<in>set segs. CHR ''/'' \<notin> set s"
    using assms(1) by (simp add: file_name_ok_def)
  have a: "split_on (CHR ''/'') (below d segs @ CHR ''/'' # (nm @ ''/'')) =
          split_on (CHR ''/'') (below d segs) @ split_on (CHR ''/'') (nm @ ''/'')"
    by (rule split_on_append_sep)
  have b: "split_on (CHR ''/'') (nm @ CHR ''/'' # []) = split_on (CHR ''/'') nm @ split_on (CHR ''/'') []"
    by (rule split_on_append_sep)
  have c: "split_on (CHR ''/'') nm = [nm]"
    using file_name_ok_facts(3) [OF assms(2)] by (rule split_on_no_sep)
  have d: "split_on (CHR ''/'') (below d segs) = split_on (CHR ''/'') d @ segs"
    using seg by (rule split_on_below)
  show ?thesis using a b c d by simp
qed

lemma posix_resolve_below:
  assumes "d \<noteq> []" and "hd d = CHR ''/''"
    and "\<forall>s\<in>set segs. file_name_ok s" and "file_name_ok nm"
  shows "posix_resolve cwd [below d segs, nm] =
           CHR ''/'' # join_with ''/''
             (normalize_segments False [] (split_on (CHR ''/'') d) @ segs @ [nm])"
proof -
  have ne: "below d segs \<noteq> []" and hd: "hd (below d segs) = CHR ''/''"
    using assms(1,2) by (simp_all add: below_def)
  note nm = file_name_ok_facts [OF assms(4)]
  have scan: "resolve_scan (rev [below d segs, nm] @ [cwd]) [] =
                (below d segs @ ''/'' @ nm @ ''/'', True)"
    using ne hd nm(1,2) by (rule resolve_scan_two)
  note sp = split_on_resolved_pair [OF assms(3,4), of d]
  have ok: "\<forall>s\<in>set (segs @ [nm]). file_name_ok s" using assms(3,4) by simp
  have n1: "normalize_segments False [] (split_on (CHR ''/'') d @ (segs @ [nm]) @ [[]]) =
          normalize_segments False
            (normalize_segments False (normalize_segments False [] (split_on (CHR ''/'') d)) (segs @ [nm]))
            [[]]"
    by (simp only: normalize_segments_append_False)
  have n2: "normalize_segments False (normalize_segments False [] (split_on (CHR ''/'') d)) (segs @ [nm]) =
              normalize_segments False [] (split_on (CHR ''/'') d) @ segs @ [nm]"
    using normalize_segments_ok [OF ok] by simp
  have n3: "normalize_segments False acc [[]] = acc" for acc
    by simp
  have n: "normalize_segments False [] (split_on (CHR ''/'') (below d segs @ ''/'' @ nm @ ''/'')) =
          normalize_segments False [] (split_on (CHR ''/'') d) @ segs @ [nm]"
    by (simp only: sp n1 n2 n3)
  show ?thesis
    using ne hd nm(1,2) n by (simp add: posix_resolve_def)
qed

lemma posix_relative_below:
  assumes "d \<noteq> []" and "hd d = CHR ''/''"
    and "\<forall>s\<in>set segs. file_name_ok s" and "file_name_ok nm"
  shows "posix_relative cwd d (posix_resolve cwd [below d segs, nm]) =
           join_with ''/'' (segs @ [nm])"
proof -
  define ds where "ds = normalize_segments False [] (split_on (CHR ''/'') d)"
  define t where "t = CHR ''/'' # join_with ''/'' (ds @ segs @ [nm])"
  define f where "f = CHR ''/'' # join_with ''/'' ds"
  have dsok: "\<forall>s\<in>set ds. file_name_ok s"
    unfolding ds_def
    by (rule normalize_segments_result_ok) (auto dest: split_on_segments)
  have allok: "\<forall>s\<in>set (ds @ segs @ [nm]). file_name_ok s"
    using dsok assms(3,4) by auto
  have to: "posix_resolve cwd [below d segs, nm] = t"
    using posix_resolve_below [OF assms] by (simp only: t_def ds_def)
  have rf: "posix_resolve cwd [d] = f"
    using posix_resolve_absolute [OF assms(1,2)] by (simp only: f_def ds_def)
  have segs_t: "path_segments t = ds @ segs @ [nm]"
    unfolding t_def by (rule path_segments_join_with [OF allok])
  have segs_f: "path_segments f = ds"
    unfolding f_def by (rule path_segments_join_with [OF dsok])
  have nosep: "\<forall>s\<in>set (ds @ segs @ [nm]). CHR ''/'' \<notin> set s"
    using allok by (simp add: file_name_ok_def)
  have "split_on (CHR ''/'') (join_with ''/'' (ds @ segs @ [nm])) = ds @ segs @ [nm]"
    using nosep by (rule split_on_join_with) simp
  then have spt: "split_on (CHR ''/'') t = [] # (ds @ segs @ [nm])"
    by (simp add: t_def)
  have "normalize_segments False [] ([] # (ds @ segs @ [nm])) = ds @ segs @ [nm]"
    using normalize_segments_ok [OF allok, of False "[]"] by simp
  then have nt: "normalize_segments False [] (split_on (CHR ''/'') t) = ds @ segs @ [nm]"
    by (simp only: spt)
  have tne: "t \<noteq> []" and thd: "hd t = CHR ''/''" by (simp_all add: t_def)
  have tt: "posix_resolve cwd [t] = t"
    unfolding posix_resolve_absolute [OF tne thd] nt by (simp only: t_def)
  have sne: "path_segments f \<noteq> path_segments t"
    by (simp add: segs_f segs_t)
  then have ne2: "f \<noteq> t" by auto
  have ne1: "d \<noteq> t"
  proof
    assume "d = t"
    then have "posix_resolve cwd [d] = posix_resolve cwd [t]" by simp
    then show False using rf tt ne2 by simp
  qed
  have "posix_relative cwd d t =
          (case strip_common (path_segments f) (path_segments t) of
             (fr, tr) \<Rightarrow> join_with ''/'' (replicate (length fr) ''..'' @ tr))"
    using ne1 ne2 by (simp only: posix_relative_def rf tt Let_def if_False)
  also have "\<dots> = join_with ''/'' (segs @ [nm])"
    by (simp only: segs_f segs_t strip_common_append prod.case list.size replicate_0 append_Nil)
  finally show ?thesis by (simp only: to)
qed


section \<open>Runs that differ in the directory stream only\<close>

lemma zipDir_entry_opendir_irrelevant:
  "zipDir_entry (H\<lparr>opendir := f\<rparr>) inDir outFile e w = zipDir_entry H inDir outFile e w"
  by (simp add: zipDir_entry_def filename_of_def Let_def split: sum.splits)

lemma zipDir_loop_opendir_irrelevant:
  "zipDir_loop (H\<lparr>opendir := f\<rparr>) inDir outFile es w = zipDir_loop H inDir outFile es w"
  by (induction es arbitrary: w) (simp_all add: zipDir_entry_opendir_irrelevant)

lemma zipDir_write_opendir_irrelevant:
  "zipDir_write (H\<lparr>opendir := f\<rparr>) outFile w = zipDir_write H outFile w"
  by (simp add: zipDir_write_def Let_def split: option.splits)


section \<open>Closing the directory\<close>

lemma loop_ops_no_close:
  assumes "loop_world H inDir outFile s = (wl, rl)"
  shows "OpClose \<notin> set (fs_ops wl)"
proof -
  from loop_world_effects [OF assms] obtain ops where
    o: "fs_ops wl = OpOpendir inDir # ops" and
    q: "\<forall>op\<in>set ops. \<exists>e\<in>set (items s). archived H outFile e \<and>
          (op = OpStat (filename_of H e) \<or> (isFile e \<and> op = OpReadFile (filename_of H e)))"
    by blast
  from q have "OpClose \<notin> set ops" by auto
  with o show ?thesis by simp
qed

lemma count_list_append: "count_list (xs @ ys) a = count_list xs a + count_list ys a"
  by (induction xs) simp_all

lemma count_list_absent: "a \<notin> set xs \<Longrightarrow> count_list xs a = 0"
  by (induction xs) auto

lemma zipDir_closes_once:
  assumes op: "opendir H inDir = Inr s"
  shows "count_list (fs_ops (fst (zipDir H inDir outFile))) OpClose = 1"
proof -
  obtain wl rl where lw: "loop_world H inDir outFile s = (wl, rl)"
    by (cases "loop_world H inDir outFile s")
  from zipDir_final_world [OF op lw] obtain tl where
    t: "fs_ops (fst (zipDir H inDir outFile)) = fs_ops wl @ OpClose # tl" and
    nc: "OpClose \<notin> set tl"
    by blast
  have "count_list (fs_ops wl) OpClose = 0"
    using loop_ops_no_close [OF lw] by (rule count_list_absent)
  moreover have "count_list tl OpClose = 0"
    using nc by (rule count_list_absent)
  ultimately show ?thesis
    by (simp add: t count_list_append)
qed

lemma zipDir_close_error_propagates:
  assumes op: "opendir H inDir = Inr s"
    and c: "close_result s = Some err" "err_code err \<noteq> Some ''ERR_DIR_CLOSED''"
  shows "snd (zipDir H inDir outFile) = Some err"
proof -
  obtain wl rl where lw: "loop_world H inDir outFile s = (wl, rl)"
    by (cases "loop_world H inDir outFile s")
  have "finally_result s (try_result s rl) = Some err"
    using c by (simp add: finally_result_def)
  then show ?thesis
    using zipDir_opendir_ok [OF op lw] by simp
qed

lemma zipDir_closed_error_swallowed:
  assumes op: "opendir H inDir = Inr s"
    and c: "close_result s = Some err" "err_code err = Some ''ERR_DIR_CLOSED''"
  shows "zipDir H inDir outFile =
           zipDir (H\<lparr>opendir := (opendir H)(inDir := Inr (s\<lparr>close_result := None\<rparr>))\<rparr>)
             inDir outFile"
proof -
  obtain wl rl where lw: "loop_world H inDir outFile s = (wl, rl)"
    by (cases "loop_world H inDir outFile s")
  let ?s = "s\<lparr>close_result := None\<rparr>"
  let ?H = "H\<lparr>opendir := (opendir H)(inDir := Inr ?s)\<rparr>"
  have op': "opendir ?H inDir = Inr ?s" by simp
  have lw': "loop_world ?H inDir outFile ?s = (wl, rl)"
    using lw by (simp add: loop_world_def zipDir_loop_opendir_irrelevant)
  have fr: "finally_result ?s (try_result ?s rl) = finally_result s (try_result s rl)"
    using c by (simp add: finally_result_def try_result_def split: option.splits)
  show ?thesis
    unfolding zipDir_opendir_ok [OF op lw] zipDir_opendir_ok [OF op' lw'] fr
    by (simp only: zipDir_write_opendir_irrelevant)
qed

lemma zipDir_success_ops:
  assumes op: "opendir H inDir = Inr s" and ok0: "snd (zipDir H inDir outFile) = None"
  shows "\<forall>op\<in>set (fs_ops (fst (zipDir H inDir outFile))). op_succeeded H op"
proof -
  obtain wl rl where lw: "loop_world H inDir outFile s = (wl, rl)"
    by (cases "loop_world H inDir outFile s")
  from zipDir_final_world [OF op lw] ok0 obtain tl where
    t: "fs_ops (fst (zipDir H inDir outFile)) = fs_ops wl @ OpClose # tl" and
    ok: "\<forall>op\<in>set tl. op_succeeded H op"
    by blast
  from zipDir_success [OF op lw ok0] have rl: "rl = None" by simp
  from loop_world_effects [OF lw] rl obtain ops where
    o: "fs_ops wl = OpOpendir inDir # ops" and
    s: "\<forall>p\<in>set ops. op_succeeded H p"
    by blast
  have a: "op_succeeded H (OpOpendir inDir)" using op by (simp add: op_succeeded_def)
  have b: "op_succeeded H OpClose" by (simp add: op_succeeded_def)
  show ?thesis
    unfolding t o using a b s ok by auto
qed


section \<open>The example hosts\<close>

lemma dist_host_opendir: "opendir dist_host d = Inr (closing_stream dist_entries)"
  by (simp add: dist_host_def posix_table_host_def table_host_def)

lemma eio_close_host_opendir:
  "opendir eio_close_host d = Inr \<lparr> items = dist_entries, failure = None, close_result = Some EIO \<rparr>"
  by (simp add: eio_close_host_def posix_table_host_def table_host_def)

lemma vanished_host_opendir:
  "opendir vanished_host d =
     Inr (closing_stream (dist_entries @ [dirent_in ''/dist'' ''gone.js'' KFile]))"
  by (simp add: vanished_host_def posix_table_host_def table_host_def)

lemma fresh_host_opendir: "opendir fresh_host d = Inr (closing_stream fresh_entries)"
  by (simp add: fresh_host_def posix_table_host_def table_host_def)


section \<open>The shape of a member path on a POSIX host\<close>

lemma join_with_Cons: "xs \<noteq> [] \<Longrightarrow> join_with sep (x # xs) = x @ sep @ join_with sep xs"
  by (cases xs) simp_all

lemma join_with_snoc_last:
  "nm \<noteq> [] \<Longrightarrow> join_with sep (segs @ [nm]) \<noteq> [] \<and> last (join_with sep (segs @ [nm])) = last nm"
  by (induction segs) (simp_all add: join_with_Cons)

lemma posix_member_path:
  assumes "posix_paths cwd H" and "inDir \<noteq> []" and "hd inDir = CHR ''/''"
    and "\<forall>x\<in>set segs. file_name_ok x" and "file_name_ok (name e)"
    and "nullish (parentPath e) (path e) = below inDir segs"
  shows "relative H inDir (filename_of H e) = join_with ''/'' (segs @ [name e])"
proof -
  have "relative H inDir (filename_of H e) =
          posix_relative cwd inDir (posix_resolve cwd [below inDir segs, name e])"
    using assms(1,6) by (simp add: posix_paths_def filename_of_def)
  then show ?thesis
    using posix_relative_below [OF assms(2,3,4,5)] by simp
qed


section \<open>The members of a run that succeeds\<close>

lemma archives_entry_unique:
  assumes "archives_entry H inDir e m" and "archives_entry H inDir e m'"
  shows "m = m'"
  using assms
  by (cases m; cases m')
     (auto simp: archives_entry_def split: sum.splits if_splits)

lemma archives_entry_agree:
  assumes "resolve H2 = resolve H1" and "relative H2 = relative H1"
    and "\<forall>p. p \<noteq> outFile \<longrightarrow> stat H2 p = stat H1 p \<and> readFile H2 p = readFile H1 p"
    and "filename_of H1 e \<noteq> outFile"
  shows "archives_entry H2 inDir e m \<longleftrightarrow> archives_entry H1 inDir e m"
proof -
  have f: "filename_of H2 e = filename_of H1 e"
    using assms(1) by (simp add: filename_of_def)
  have "stat H2 (filename_of H1 e) = stat H1 (filename_of H1 e)"
    and "readFile H2 (filename_of H1 e) = readFile H1 (filename_of H1 e)"
    using assms(3,4) by simp_all
  then show ?thesis
    using assms(2) by (simp add: archives_entry_def relativeFilename_of_def f)
qed

lemma members_determined:
  assumes "list_all2 (archives_entry H inDir) xs ms"
  shows "ms = map (\<lambda>e. THE m. archives_entry H inDir e m) xs"
  using assms
proof (induction rule: list_all2_induct)
  case Nil
  then show ?case by simp
next
  case (Cons e xs m ms)
  have "(THE m'. archives_entry H inDir e m') = m"
    using Cons.hyps(1) by (blast intro: the_equality archives_entry_unique)
  with Cons.IH show ?case by simp
qed

lemma run_members:
  assumes "opendir H inDir = Inr s" and "snd (zipDir H inDir outFile) = None"
  shows "list_all2 (archives_entry H inDir) (filter (archived H outFile) (items s))
           (zip_members (fst (zipDir H inDir outFile)))"
proof -
  obtain wl rl where lw: "loop_world H inDir outFile s = (wl, rl)"
    by (cases "loop_world H inDir outFile s")
  from zipDir_success [OF assms(1) lw assms(2)] have rl: "rl = None" by simp
  have m: "zip_members (fst (zipDir H inDir outFile)) = zip_members wl"
    using zipDir_final_world [OF assms(1) lw] by simp
  show ?thesis
    unfolding m using loop_world_effects [OF lw] rl by blast
qed



section \<open>The claims\<close>

subsection \<open>The onLog hook\<close>

text \<open>
  C10. The \<^verbatim>\<open>quiet\<close> option suppresses only the plugin's own log messages: a log whose
  plugin name is not \<^verbatim>\<open>vite-plugin-aws-lambda\<close> passes whatever \<^verbatim>\<open>quiet\<close> is, and the
  hook returns false exactly when the log is the plugin's own and \<^verbatim>\<open>quiet\<close> is true.
\<close>

theorem onLog_filters_own_logs_only:
  "(plugin lg \<noteq> Some PLUGIN_NAME \<longrightarrow> onLog opts lvl lg) \<and>
   (\<not> onLog opts lvl lg \<longleftrightarrow> plugin lg = Some PLUGIN_NAME \<and> quiet opts = Some True)"
  by (auto simp: onLog_def quiet_of_def split: option.splits)

theorem onLog_filters_own_logs_only_witness:
  "onLog \<lparr> outFilename = None, quiet = Some True \<rparr> Info
      \<lparr> plugin = Some ''vite:reporter'', message = ''built'' \<rparr> \<and>
   \<not> onLog \<lparr> outFilename = None, quiet = Some True \<rparr> Info
      \<lparr> plugin = Some ''vite-plugin-aws-lambda'', message = ''zipping output directory...'' \<rparr>"
  using onLog_filters_own_logs_only
    [of "\<lparr> plugin = Some ''vite:reporter'', message = ''built'' \<rparr>"
        "\<lparr> outFilename = None, quiet = Some True \<rparr>" Info]
    onLog_filters_own_logs_only
    [of "\<lparr> plugin = Some ''vite-plugin-aws-lambda'', message = ''zipping output directory...'' \<rparr>"
        "\<lparr> outFilename = None, quiet = Some True \<rparr>" Info]
  by (simp add: PLUGIN_NAME_def)


subsection \<open>The configuration defaults\<close>

text \<open>
  C4. With only the entry set (no formats, no file name rule, no external option),
  \<^verbatim>\<open>getConfigDefaults\<close> returns the formats \<^verbatim>\<open>['es']\<close>, a file name rule that gives
  \<^verbatim>\<open><name>.mjs\<close> for the formats \<^verbatim>\<open>es\<close>, \<^verbatim>\<open>esm\<close> and \<^verbatim>\<open>module\<close> and \<^verbatim>\<open><name>.js\<close> for
  every other format, and an external predicate that answers as the host's
  \<^verbatim>\<open>module.isBuiltin\<close> does.
\<close>

theorem getConfigDefaults_entry_only:
  assumes "formats l = None" and "fileName l = None"
    and "\<forall>ro. rollupOptions = Some ro \<longrightarrow> external ro = None"
  shows "lib_formats (lib (getConfigDefaults isBuiltin l rollupOptions)) = [''es''] \<and>
         (\<exists>f. lib_fileName (lib (getConfigDefaults isBuiltin l rollupOptions)) = FileNameFun f \<and>
              (\<forall>format nm.
                 f format nm =
                   (if format \<in> {''es'', ''esm'', ''module''} then nm @ ''.mjs'' else nm @ ''.js''))) \<and>
         (\<exists>p. rollup_external (getConfigDefaults isBuiltin l rollupOptions) = ExternalFun p \<and>
              (\<forall>s. p s \<longleftrightarrow> isBuiltin s))"
  using assms
  by (cases rollupOptions) (auto simp: getConfigDefaults_def nullish_def default_fileName_def)

theorem getConfigDefaults_entry_only_witness:
  "lib_formats (lib (getConfigDefaults node_builtins entry_only (Some \<lparr> external = None \<rparr>))) = [''es''] \<and>
   (\<exists>f. lib_fileName (lib (getConfigDefaults node_builtins entry_only (Some \<lparr> external = None \<rparr>)))
          = FileNameFun f \<and>
       f ''es'' ''index'' = ''index.mjs'' \<and> f ''esm'' ''index'' = ''index.mjs'' \<and>
       f ''module'' ''index'' = ''index.mjs'' \<and> f ''cjs'' ''index'' = ''index.js'') \<and>
   (\<exists>p. rollup_external (getConfigDefaults node_builtins entry_only (Some \<lparr> external = None \<rparr>))
          = ExternalFun p \<and> p ''fs'' \<and> \<not> p ''fs-extra'')"
proof -
  let ?r = "getConfigDefaults node_builtins entry_only (Some \<lparr> external = None \<rparr>)"
  have main: "lib_formats (lib ?r) = [''es''] \<and>
         (\<exists>f. lib_fileName (lib ?r) = FileNameFun f \<and>
              (\<forall>format nm.
                 f format nm =
                   (if format \<in> {''es'', ''esm'', ''module''} then nm @ ''.mjs'' else nm @ ''.js''))) \<and>
         (\<exists>p. rollup_external ?r = ExternalFun p \<and> (\<forall>s. p s \<longleftrightarrow> node_builtins s))"
    by (rule getConfigDefaults_entry_only) (simp_all add: entry_only_def)
  from main obtain f where
    b: "lib_fileName (lib ?r) = FileNameFun f" and
    c: "\<And>format nm. f format nm =
          (if format \<in> {''es'', ''esm'', ''module''} then nm @ ''.mjs'' else nm @ ''.js'')"
    by (elim conjE exE) simp
  from main obtain p where
    d: "rollup_external ?r = ExternalFun p" and
    e: "\<And>s. p s \<longleftrightarrow> node_builtins s"
    by (elim conjE exE) simp
  have f1: "f ''es'' ''index'' = ''index.mjs''" by (simp add: c)
  have f2: "f ''esm'' ''index'' = ''index.mjs''" by (simp add: c)
  have f3: "f ''module'' ''index'' = ''index.mjs''" by (simp add: c)
  have f4: "f ''cjs'' ''index'' = ''index.js''" by (simp add: c)
  have p1: "p ''fs''" by (simp add: e node_builtins_def)
  have p2: "\<not> p ''fs-extra''" by (simp add: e node_builtins_def)
  from main have a: "lib_formats (lib ?r) = [''es'']" by (elim conjE)
  show ?thesis
    using a b d f1 f2 f3 f4 p1 p2 by (intro conjI exI [of _ f] exI [of _ p])
qed


text \<open>
  C5. Every field the caller set is returned as it is: the entry, the formats array,
  the file name rule and the external option. The formats array is returned whole,
  no element of it changed.
\<close>

theorem getConfigDefaults_preserves_explicit:
  "lib_entry (lib (getConfigDefaults isBuiltin l rollupOptions)) = entry l \<and>
   (\<forall>fs. formats l = Some fs \<longrightarrow>
      lib_formats (lib (getConfigDefaults isBuiltin l rollupOptions)) = fs) \<and>
   (\<forall>fn. fileName l = Some fn \<longrightarrow>
      lib_fileName (lib (getConfigDefaults isBuiltin l rollupOptions)) = fn) \<and>
   (\<forall>ro x. rollupOptions = Some ro \<and> external ro = Some x \<longrightarrow>
      rollup_external (getConfigDefaults isBuiltin l rollupOptions) = x)"
  by (auto simp: getConfigDefaults_def nullish_def)

theorem getConfigDefaults_preserves_explicit_witness:
  "lib_entry (lib (getConfigDefaults (\<lambda>s. False)
      \<lparr> entry = ''src/handler.ts'', formats = Some [''cjs'', ''es''],
        fileName = Some (FileNameString ''handler'') \<rparr>
      (Some \<lparr> external = Some (ExternalList [PString ''aws-sdk'']) \<rparr>))) = ''src/handler.ts'' \<and>
   lib_formats (lib (getConfigDefaults (\<lambda>s. False)
      \<lparr> entry = ''src/handler.ts'', formats = Some [''cjs'', ''es''],
        fileName = Some (FileNameString ''handler'') \<rparr>
      (Some \<lparr> external = Some (ExternalList [PString ''aws-sdk'']) \<rparr>))) = [''cjs'', ''es''] \<and>
   lib_fileName (lib (getConfigDefaults (\<lambda>s. False)
      \<lparr> entry = ''src/handler.ts'', formats = Some [''cjs'', ''es''],
        fileName = Some (FileNameString ''handler'') \<rparr>
      (Some \<lparr> external = Some (ExternalList [PString ''aws-sdk'']) \<rparr>))) = FileNameString ''handler'' \<and>
   rollup_external (getConfigDefaults (\<lambda>s. False)
      \<lparr> entry = ''src/handler.ts'', formats = Some [''cjs'', ''es''],
        fileName = Some (FileNameString ''handler'') \<rparr>
      (Some \<lparr> external = Some (ExternalList [PString ''aws-sdk'']) \<rparr>)) = ExternalList [PString ''aws-sdk'']"
  using getConfigDefaults_preserves_explicit
    [of "\<lambda>s. False"
        "\<lparr> entry = ''src/handler.ts'', formats = Some [''cjs'', ''es''],
           fileName = Some (FileNameString ''handler'') \<rparr>"
        "Some \<lparr> external = Some (ExternalList [PString ''aws-sdk'']) \<rparr>"]
  by simp


subsection \<open>The archiver\<close>

text \<open>
  C1. An entry whose resolved absolute path is the destination file is passed over: no
  member is added, \<^verbatim>\<open>onFile\<close> is not called, nothing is read, whether or not the file is
  on disk. The loop runs as it would on the stream without these entries. Every member
  of the archive comes from an entry that resolves to another path, and when
  \<^verbatim>\<open>path.relative\<close> tells the paths of the run apart, no member is named as the
  destination would be.
\<close>

theorem destination_is_never_archived:
  "(filename_of H e = outFile \<longrightarrow> zipDir_entry H inDir outFile e w = (w, None)) \<and>
   zipDir_loop H inDir outFile es w =
     zipDir_loop H inDir outFile (filter (\<lambda>e. filename_of H e \<noteq> outFile) es) w \<and>
   (opendir H inDir = Inr s \<longrightarrow>
      (\<forall>m\<in>set (zip_members (fst (zipDir H inDir outFile))).
          \<exists>e\<in>set (items s). filename_of H e \<noteq> outFile \<and>
                             relativePath m = relative H inDir (filename_of H e)) \<and>
      (inj_on (relative H inDir) (insert outFile (filename_of H ` set (items s))) \<longrightarrow>
         relative H inDir outFile
           \<notin> relativePath ` set (zip_members (fst (zipDir H inDir outFile)))))"
proof (intro conjI impI)
  assume "filename_of H e = outFile"
  then show "zipDir_entry H inDir outFile e w = (w, None)"
    by (rule zipDir_entry_skip_dest)
next
  show "zipDir_loop H inDir outFile es w =
          zipDir_loop H inDir outFile (filter (\<lambda>e. filename_of H e \<noteq> outFile) es) w"
    by (rule zipDir_loop_filter) (simp add: zipDir_entry_skip_dest)
next
  assume op: "opendir H inDir = Inr s"
  obtain wl rl where lw: "loop_world H inDir outFile s = (wl, rl)"
    by (cases "loop_world H inDir outFile s")
  have fw: "zip_members (fst (zipDir H inDir outFile)) = zip_members wl"
    using zipDir_final_world [OF op lw] by simp
  have prov: "\<forall>m\<in>set (zip_members wl). \<exists>e\<in>set (items s).
                archived H outFile e \<and> archives_entry H inDir e m"
    using loop_world_effects [OF lw] by blast
  show a: "\<forall>m\<in>set (zip_members (fst (zipDir H inDir outFile))).
          \<exists>e\<in>set (items s). filename_of H e \<noteq> outFile \<and>
                             relativePath m = relative H inDir (filename_of H e)"
    unfolding fw using prov
    by (fastforce simp: archived_def archives_entry_def relativeFilename_of_def)
  assume inj: "inj_on (relative H inDir) (insert outFile (filename_of H ` set (items s)))"
  show "relative H inDir outFile
          \<notin> relativePath ` set (zip_members (fst (zipDir H inDir outFile)))"
  proof
    assume "relative H inDir outFile
              \<in> relativePath ` set (zip_members (fst (zipDir H inDir outFile)))"
    then obtain m where m: "m \<in> set (zip_members (fst (zipDir H inDir outFile)))"
      and r: "relativePath m = relative H inDir outFile" by auto
    from a m obtain e where e: "e \<in> set (items s)" "filename_of H e \<noteq> outFile"
      "relativePath m = relative H inDir (filename_of H e)" by blast
    from e(3) r have "relative H inDir (filename_of H e) = relative H inDir outFile" by simp
    moreover have "filename_of H e \<in> insert outFile (filename_of H ` set (items s))"
      using e(1) by simp
    moreover have "outFile \<in> insert outFile (filename_of H ` set (items s))" by simp
    ultimately have "filename_of H e = outFile"
      using inj by (rule inj_onD [rotated])
    with e(2) show False by simp
  qed
qed

theorem destination_is_never_archived_witness:
  "filename_of dist_host (dirent_in ''/dist'' ''foo.zip'' KFile) = ''/dist/foo.zip'' \<and>
   stat dist_host ''/dist/foo.zip'' = Inr \<lparr> mtime = 500 \<rparr> \<and>
   zipDir_entry dist_host ''/dist'' ''/dist/foo.zip'' (dirent_in ''/dist'' ''foo.zip'' KFile) world0
     = (world0, None) \<and>
   relative dist_host ''/dist'' ''/dist/foo.zip'' = ''foo.zip'' \<and>
   ''foo.zip'' \<notin> relativePath ` set (zip_members (fst (zipDir dist_host ''/dist'' ''/dist/foo.zip'')))"
proof -
  let ?e = "dirent_in ''/dist'' ''foo.zip'' KFile"
  let ?xs = "remdups (''/dist/foo.zip'' # map (filename_of dist_host) dist_entries)"
  have h1: "filename_of dist_host ?e = ''/dist/foo.zip''" by code_simp
  have h2: "stat dist_host ''/dist/foo.zip'' = Inr \<lparr> mtime = 500 \<rparr>" by code_simp
  have h3: "relative dist_host ''/dist'' ''/dist/foo.zip'' = ''foo.zip''" by code_simp
  have "distinct (map (relative dist_host ''/dist'') ?xs)" by code_simp
  then have "inj_on (relative dist_host ''/dist'') (set ?xs)"
    by (simp only: distinct_map)
  then have "inj_on (relative dist_host ''/dist'')
      (set (''/dist/foo.zip'' # map (filename_of dist_host) dist_entries))"
    by (simp only: set_remdups)
  then have h4: "inj_on (relative dist_host ''/dist'')
      (insert ''/dist/foo.zip'' (filename_of dist_host ` set (items (closing_stream dist_entries))))"
    by (simp add: closing_stream_def del: inj_on_insert)
  note t = destination_is_never_archived
    [where H = dist_host and e = ?e and outFile = "''/dist/foo.zip''" and inDir = "''/dist''"
       and w = world0 and es = "[]" and s = "closing_stream dist_entries"]
  from t h1 have a: "zipDir_entry dist_host ''/dist'' ''/dist/foo.zip'' ?e world0 = (world0, None)"
    by blast
  from t h4 dist_host_opendir have "relative dist_host ''/dist'' ''/dist/foo.zip''
      \<notin> relativePath ` set (zip_members (fst (zipDir dist_host ''/dist'' ''/dist/foo.zip'')))"
    by blast
  with h1 h2 h3 a show ?thesis by simp
qed

text \<open>
  C3. In every run the \<^verbatim>\<open>onFile\<close> invocations are, in order, the relative paths of the
  file members of the archive: one invocation for each file member, with its path
  relative to the source directory; so there are as many invocations as file members.
  A directory entry and the passed-over destination entry cause no invocation.
\<close>

theorem onFile_once_per_file_member:
  "onFile_calls (fst (zipDir H inDir outFile)) =
     map relativePath (filter (\<lambda>m. \<not> dir m) (zip_members (fst (zipDir H inDir outFile)))) \<and>
   length (onFile_calls (fst (zipDir H inDir outFile))) =
     length (filter (\<lambda>m. \<not> dir m) (zip_members (fst (zipDir H inDir outFile)))) \<and>
   (isDirectory e \<or> filename_of H e = outFile \<longrightarrow>
      onFile_calls (fst (zipDir_entry H inDir outFile e w)) = onFile_calls w)"
proof -
  have a: "onFile_calls (fst (zipDir H inDir outFile)) =
     map relativePath (filter (\<lambda>m. \<not> dir m) (zip_members (fst (zipDir H inDir outFile))))"
  proof (cases "opendir H inDir")
    case (Inl err)
    then show ?thesis by (simp add: zipDir_opendir_fails issue_def world0_def)
  next
    case (Inr s)
    obtain wl rl where lw: "loop_world H inDir outFile s = (wl, rl)"
      by (cases "loop_world H inDir outFile s")
    have "onFile_calls wl = map relativePath (filter (\<lambda>m. \<not> dir m) (zip_members wl))"
      using loop_world_effects [OF lw] by blast
    then show ?thesis using zipDir_final_world [OF Inr lw] by simp
  qed
  have b: "isDirectory e \<or> filename_of H e = outFile \<Longrightarrow>
             onFile_calls (fst (zipDir_entry H inDir outFile e w)) = onFile_calls w"
    by (auto simp: zipDir_entry_def Let_def issue_def zip_file_def split: sum.splits)
  from a have "length (onFile_calls (fst (zipDir H inDir outFile))) =
     length (filter (\<lambda>m. \<not> dir m) (zip_members (fst (zipDir H inDir outFile))))"
    by (metis length_map)
  with a b show ?thesis by blast
qed

theorem onFile_once_per_file_member_witness:
  "onFile_calls (fst (zipDir dist_host ''/dist'' ''/dist/foo.zip'')) = [''a.txt'', ''b/c.txt''] \<and>
   length (filter (\<lambda>m. \<not> dir m) (zip_members (fst (zipDir dist_host ''/dist'' ''/dist/foo.zip'')))) = 2 \<and>
   length (zip_members (fst (zipDir dist_host ''/dist'' ''/dist/foo.zip''))) = 3 \<and>
   onFile_calls (fst (zipDir_entry dist_host ''/dist'' ''/dist/foo.zip''
      (dirent_in ''/dist'' ''b'' KDirectory) world0)) = []"
proof -
  let ?e = "dirent_in ''/dist'' ''b'' KDirectory"
  note t = onFile_once_per_file_member
    [where H = dist_host and e = ?e and outFile = "''/dist/foo.zip''" and inDir = "''/dist''"
       and w = world0]
  have h1: "isDirectory ?e" by code_simp
  have h2: "map relativePath (filter (\<lambda>m. \<not> dir m)
      (zip_members (fst (zipDir dist_host ''/dist'' ''/dist/foo.zip'')))) = [''a.txt'', ''b/c.txt'']"
    by code_simp
  have h3: "length (zip_members (fst (zipDir dist_host ''/dist'' ''/dist/foo.zip''))) = 3"
    by code_simp
  from t h2 have a: "onFile_calls (fst (zipDir dist_host ''/dist'' ''/dist/foo.zip'')) = [''a.txt'', ''b/c.txt'']"
    by simp
  from t a have b: "length (filter (\<lambda>m. \<not> dir m)
      (zip_members (fst (zipDir dist_host ''/dist'' ''/dist/foo.zip'')))) = 2"
    by simp
  from t h1 have c: "onFile_calls (fst (zipDir_entry dist_host ''/dist'' ''/dist/foo.zip'' ?e world0)) = []"
    by (simp add: world0_def)
  from a b h3 c show ?thesis by simp
qed

text \<open>
  C9. An entry that is neither a regular file nor a directory (a symbolic link, a
  socket, a FIFO) is passed over without an error: the iteration leaves the world as it
  was (no member, no \<^verbatim>\<open>stat\<close>, no \<^verbatim>\<open>readFile\<close>, no \<^verbatim>\<open>onFile\<close>), the loop runs as on the
  stream without such entries, and in a whole run every member and every \<^verbatim>\<open>stat\<close> or
  \<^verbatim>\<open>readFile\<close> belongs to an entry that is a file or a directory.
\<close>

theorem other_kinds_are_omitted:
  "(\<not> isFile e \<and> \<not> isDirectory e \<longrightarrow> zipDir_entry H inDir outFile e w = (w, None)) \<and>
   zipDir_loop H inDir outFile es w =
     zipDir_loop H inDir outFile (filter (\<lambda>e. isFile e \<or> isDirectory e) es) w \<and>
   (opendir H inDir = Inr s \<longrightarrow>
      (\<forall>m\<in>set (zip_members (fst (zipDir H inDir outFile))).
          \<exists>e\<in>set (items s). (isFile e \<or> isDirectory e) \<and> archives_entry H inDir e m) \<and>
      (\<forall>op\<in>set (fs_ops (fst (zipDir H inDir outFile))). \<forall>f.
          op = OpStat f \<or> op = OpReadFile f \<longrightarrow>
          (\<exists>e\<in>set (items s). (isFile e \<or> isDirectory e) \<and> f = filename_of H e)))"
proof (intro conjI impI)
  assume "\<not> isFile e \<and> \<not> isDirectory e"
  then show "zipDir_entry H inDir outFile e w = (w, None)"
    by (simp add: zipDir_entry_skip_other)
next
  show "zipDir_loop H inDir outFile es w =
          zipDir_loop H inDir outFile (filter (\<lambda>e. isFile e \<or> isDirectory e) es) w"
    by (rule zipDir_loop_filter) (simp add: zipDir_entry_skip_other)
next
  assume op: "opendir H inDir = Inr s"
  obtain wl rl where lw: "loop_world H inDir outFile s = (wl, rl)"
    by (cases "loop_world H inDir outFile s")
  from loop_world_effects [OF lw] obtain ops where
    o: "fs_ops wl = OpOpendir inDir # ops" and
    p: "\<forall>m\<in>set (zip_members wl). \<exists>e\<in>set (items s).
          archived H outFile e \<and> archives_entry H inDir e m" and
    q: "\<forall>op\<in>set ops. \<exists>e\<in>set (items s). archived H outFile e \<and>
          (op = OpStat (filename_of H e) \<or> (isFile e \<and> op = OpReadFile (filename_of H e)))"
    by blast
  from zipDir_final_world [OF op lw] obtain tl where
    m: "zip_members (fst (zipDir H inDir outFile)) = zip_members wl" and
    t: "fs_ops (fst (zipDir H inDir outFile)) = fs_ops wl @ OpClose # tl" and
    u: "\<forall>op\<in>set tl. \<forall>f. op \<noteq> OpStat f \<and> op \<noteq> OpReadFile f"
    by blast
  show "\<forall>m\<in>set (zip_members (fst (zipDir H inDir outFile))).
          \<exists>e\<in>set (items s). (isFile e \<or> isDirectory e) \<and> archives_entry H inDir e m"
    unfolding m using p by (fastforce simp: archived_def)
  show "\<forall>op\<in>set (fs_ops (fst (zipDir H inDir outFile))). \<forall>f.
          op = OpStat f \<or> op = OpReadFile f \<longrightarrow>
          (\<exists>e\<in>set (items s). (isFile e \<or> isDirectory e) \<and> f = filename_of H e)"
  proof (intro ballI allI impI)
    fix op f
    assume mem: "op \<in> set (fs_ops (fst (zipDir H inDir outFile)))"
      and sr: "op = OpStat f \<or> op = OpReadFile f"
    from mem t o have "op = OpOpendir inDir \<or> op \<in> set ops \<or> op = OpClose \<or> op \<in> set tl"
      by auto
    with sr u have "op \<in> set ops" by auto
    with q obtain e where "e \<in> set (items s)" "archived H outFile e"
      "op = OpStat (filename_of H e) \<or> (isFile e \<and> op = OpReadFile (filename_of H e))"
      by blast
    with sr show "\<exists>e\<in>set (items s). (isFile e \<or> isDirectory e) \<and> f = filename_of H e"
      by (auto simp: archived_def)
  qed
qed

theorem other_kinds_are_omitted_witness:
  "kind (dirent_in ''/dist'' ''latest'' KSymbolicLink) = KSymbolicLink \<and>
   zipDir_entry dist_host ''/dist'' ''/dist.zip'' (dirent_in ''/dist'' ''latest'' KSymbolicLink) world0
     = (world0, None) \<and>
   OpStat ''/dist/latest'' \<notin> set (fs_ops (fst (zipDir dist_host ''/dist'' ''/dist.zip''))) \<and>
   OpReadFile ''/dist/latest'' \<notin> set (fs_ops (fst (zipDir dist_host ''/dist'' ''/dist.zip''))) \<and>
   map relativePath (zip_members (fst (zipDir dist_host ''/dist'' ''/dist.zip'')))
     = [''a.txt'', ''b'', ''foo.zip'', ''b/c.txt'']"
proof -
  let ?e = "dirent_in ''/dist'' ''latest'' KSymbolicLink"
  note t = other_kinds_are_omitted
    [where H = dist_host and e = ?e and outFile = "''/dist.zip''" and inDir = "''/dist''"
       and w = world0 and es = "[]" and s = "closing_stream dist_entries"]
  have h1: "\<not> isFile ?e \<and> \<not> isDirectory ?e" by code_simp
  have h2: "kind ?e = KSymbolicLink" by code_simp
  from t h1 have a: "zipDir_entry dist_host ''/dist'' ''/dist.zip'' ?e world0 = (world0, None)"
    by blast
  have none: "\<not> (\<exists>e\<in>set (items (closing_stream dist_entries)).
                  (isFile e \<or> isDirectory e) \<and> ''/dist/latest'' = filename_of dist_host e)"
    by code_simp
  from t dist_host_opendir have ops:
    "\<forall>op\<in>set (fs_ops (fst (zipDir dist_host ''/dist'' ''/dist.zip''))). \<forall>f.
        op = OpStat f \<or> op = OpReadFile f \<longrightarrow>
        (\<exists>e\<in>set (items (closing_stream dist_entries)).
            (isFile e \<or> isDirectory e) \<and> f = filename_of dist_host e)"
    by blast
  have b: "OpStat ''/dist/latest'' \<notin> set (fs_ops (fst (zipDir dist_host ''/dist'' ''/dist.zip'')))"
    using ops none by blast
  have c: "OpReadFile ''/dist/latest'' \<notin> set (fs_ops (fst (zipDir dist_host ''/dist'' ''/dist.zip'')))"
    using ops none by blast
  have d: "map relativePath (zip_members (fst (zipDir dist_host ''/dist'' ''/dist.zip'')))
     = [''a.txt'', ''b'', ''foo.zip'', ''b/c.txt'']"
    by code_simp
  from h2 a b c d show ?thesis by blast
qed

text \<open>
  C6. When \<^verbatim>\<open>fs.opendir\<close> fails nothing was opened and its error is the result. When it
  succeeds, \<^verbatim>\<open>entries.close()\<close> is called exactly once in every run, whether the loop
  ended normally or with an error. An error of \<^verbatim>\<open>close()\<close> whose code is not
  \<^verbatim>\<open>ERR_DIR_CLOSED\<close> is the error of the run. With the code \<^verbatim>\<open>ERR_DIR_CLOSED\<close> the run
  is the one in which \<^verbatim>\<open>close()\<close> succeeded. No other error is swallowed: a run that
  returns without an error had no error from the stream, none from any operation it
  issued, and none from \<^verbatim>\<open>close()\<close> but \<^verbatim>\<open>ERR_DIR_CLOSED\<close>.
\<close>

theorem directory_closed_and_only_closed_error_swallowed:
  "(opendir H inDir = Inl err0 \<longrightarrow>
      zipDir H inDir outFile = (issue (OpOpendir inDir) world0, Some err0)) \<and>
   (opendir H inDir = Inr s \<longrightarrow>
      count_list (fs_ops (fst (zipDir H inDir outFile))) OpClose = 1 \<and>
      (\<forall>err. close_result s = Some err \<and> err_code err \<noteq> Some ''ERR_DIR_CLOSED'' \<longrightarrow>
         snd (zipDir H inDir outFile) = Some err) \<and>
      (\<forall>err. close_result s = Some err \<and> err_code err = Some ''ERR_DIR_CLOSED'' \<longrightarrow>
         zipDir H inDir outFile =
           zipDir (H\<lparr>opendir := (opendir H)(inDir := Inr (s\<lparr>close_result := None\<rparr>))\<rparr>)
             inDir outFile) \<and>
      (snd (zipDir H inDir outFile) = None \<longrightarrow>
         failure s = None \<and>
         (\<forall>op\<in>set (fs_ops (fst (zipDir H inDir outFile))). op_succeeded H op) \<and>
         (\<forall>err. close_result s = Some err \<longrightarrow> err_code err = Some ''ERR_DIR_CLOSED'')))"
proof (intro conjI impI allI)
  assume "opendir H inDir = Inl err0"
  then show "zipDir H inDir outFile = (issue (OpOpendir inDir) world0, Some err0)"
    by (rule zipDir_opendir_fails)
next
  assume "opendir H inDir = Inr s"
  then show "count_list (fs_ops (fst (zipDir H inDir outFile))) OpClose = 1"
    by (rule zipDir_closes_once)
next
  fix err
  assume "opendir H inDir = Inr s"
    and "close_result s = Some err \<and> err_code err \<noteq> Some ''ERR_DIR_CLOSED''"
  then show "snd (zipDir H inDir outFile) = Some err"
    by (simp add: zipDir_close_error_propagates)
next
  fix err
  assume "opendir H inDir = Inr s"
    and "close_result s = Some err \<and> err_code err = Some ''ERR_DIR_CLOSED''"
  then show "zipDir H inDir outFile =
           zipDir (H\<lparr>opendir := (opendir H)(inDir := Inr (s\<lparr>close_result := None\<rparr>))\<rparr>)
             inDir outFile"
    using zipDir_closed_error_swallowed [of H inDir s err outFile] by blast
next
  assume op: "opendir H inDir = Inr s" and ok0: "snd (zipDir H inDir outFile) = None"
  obtain wl rl where lw: "loop_world H inDir outFile s = (wl, rl)"
    by (cases "loop_world H inDir outFile s")
  from zipDir_success [OF op lw ok0] show "failure s = None" by simp
next
  assume "opendir H inDir = Inr s" and "snd (zipDir H inDir outFile) = None"
  then show "\<forall>op\<in>set (fs_ops (fst (zipDir H inDir outFile))). op_succeeded H op"
    by (rule zipDir_success_ops)
next
  fix err
  assume op: "opendir H inDir = Inr s" and ok0: "snd (zipDir H inDir outFile) = None"
    and c: "close_result s = Some err"
  obtain wl rl where lw: "loop_world H inDir outFile s = (wl, rl)"
    by (cases "loop_world H inDir outFile s")
  from zipDir_success [OF op lw ok0] c show "err_code err = Some ''ERR_DIR_CLOSED''" by blast
qed

theorem directory_closed_and_only_closed_error_swallowed_witness:
  "snd (zipDir dist_host ''/dist'' ''/dist.zip'') = None \<and>
   count_list (fs_ops (fst (zipDir dist_host ''/dist'' ''/dist.zip''))) OpClose = 1 \<and>
   snd (zipDir eio_close_host ''/dist'' ''/dist.zip'') = Some EIO \<and>
   count_list (fs_ops (fst (zipDir eio_close_host ''/dist'' ''/dist.zip''))) OpClose = 1 \<and>
   snd (zipDir vanished_host ''/dist'' ''/dist.zip'') = Some ENOENT \<and>
   count_list (fs_ops (fst (zipDir vanished_host ''/dist'' ''/dist.zip''))) OpClose = 1"
proof -
  note t1 = directory_closed_and_only_closed_error_swallowed
    [where H = dist_host and inDir = "''/dist''" and outFile = "''/dist.zip''"
       and s = "closing_stream dist_entries" and ?err0.0 = EIO]
  note t2 = directory_closed_and_only_closed_error_swallowed
    [where H = eio_close_host and inDir = "''/dist''" and outFile = "''/dist.zip''"
       and s = "\<lparr> items = dist_entries, failure = None, close_result = Some EIO \<rparr>"
       and ?err0.0 = EIO]
  note t3 = directory_closed_and_only_closed_error_swallowed
    [where H = vanished_host and inDir = "''/dist''" and outFile = "''/dist.zip''"
       and s = "closing_stream (dist_entries @ [dirent_in ''/dist'' ''gone.js'' KFile])"
       and ?err0.0 = EIO]
  have a: "snd (zipDir dist_host ''/dist'' ''/dist.zip'') = None" by code_simp
  from t1 dist_host_opendir
  have b: "count_list (fs_ops (fst (zipDir dist_host ''/dist'' ''/dist.zip''))) OpClose = 1"
    by blast
  have h: "close_result \<lparr> items = dist_entries, failure = None, close_result = Some EIO \<rparr> = Some EIO \<and>
           err_code EIO \<noteq> Some ''ERR_DIR_CLOSED''"
    by (simp add: EIO_def)
  from t2 eio_close_host_opendir h
  have c: "snd (zipDir eio_close_host ''/dist'' ''/dist.zip'') = Some EIO" by blast
  from t2 eio_close_host_opendir
  have d: "count_list (fs_ops (fst (zipDir eio_close_host ''/dist'' ''/dist.zip''))) OpClose = 1"
    by blast
  have e: "snd (zipDir vanished_host ''/dist'' ''/dist.zip'') = Some ENOENT" by code_simp
  from t3 vanished_host_opendir
  have f: "count_list (fs_ops (fst (zipDir vanished_host ''/dist'' ''/dist.zip''))) OpClose = 1"
    by blast
  from a b c d e f show ?thesis by blast
qed

text \<open>
  C2, as the code has it. The claim speaks of the full recursive listing; a listing with
  a symbolic link in it shows that the archive need not hold every entry:
\<close>

theorem listing_with_symbolic_link_counterexample:
  "opendir dist_host ''/dist'' = Inr (closing_stream dist_entries) \<and>
   snd (zipDir dist_host ''/dist'' ''/dist.zip'') = None \<and>
   ''/dist.zip'' \<notin> filename_of dist_host ` set dist_entries \<and>
   dirent_in ''/dist'' ''latest'' KSymbolicLink \<in> set dist_entries \<and>
   relativeFilename_of dist_host ''/dist'' (dirent_in ''/dist'' ''latest'' KSymbolicLink) = ''latest'' \<and>
   ''latest'' \<notin> relativePath ` set (zip_members (fst (zipDir dist_host ''/dist'' ''/dist.zip''))) \<and>
   relativePath ` set (zip_members (fst (zipDir dist_host ''/dist'' ''/dist.zip'')))
     \<noteq> relativeFilename_of dist_host ''/dist'' ` set dist_entries"
proof -
  have a: "opendir dist_host ''/dist'' = Inr (closing_stream dist_entries)"
    by (rule dist_host_opendir)
  have b: "snd (zipDir dist_host ''/dist'' ''/dist.zip'') = None" by code_simp
  have c: "''/dist.zip'' \<notin> filename_of dist_host ` set dist_entries" by code_simp
  have d: "dirent_in ''/dist'' ''latest'' KSymbolicLink \<in> set dist_entries"
    by (simp add: dist_entries_def)
  have e: "relativeFilename_of dist_host ''/dist'' (dirent_in ''/dist'' ''latest'' KSymbolicLink) = ''latest''"
    by code_simp
  have f: "''latest'' \<notin> relativePath ` set (zip_members (fst (zipDir dist_host ''/dist'' ''/dist.zip'')))"
    by code_simp
  have "''latest'' \<in> relativeFilename_of dist_host ''/dist'' ` set dist_entries"
    using d e by (metis imageI)
  with f have g: "relativePath ` set (zip_members (fst (zipDir dist_host ''/dist'' ''/dist.zip'')))
     \<noteq> relativeFilename_of dist_host ''/dist'' ` set dist_entries"
    by auto
  from a b c d e f g show ?thesis by blast
qed

text \<open>
  C2, amended. For every directory stream in which no entry resolves to the
  destination, a run that succeeds leaves an archive whose members are, one for one and
  in the order of the traversal, the entries that are regular files or directories: each
  member is named by the entry's path relative to the source directory, a directory has
  null content, a file has the bytes \<^verbatim>\<open>fs.readFile\<close> returned. This archive is what the
  last operation of the run writes to the destination.
\<close>

theorem zipDir_archives_files_and_directories:
  assumes "opendir H inDir = Inr s"
    and "snd (zipDir H inDir outFile) = None"
    and "\<forall>e\<in>set (items s). filename_of H e \<noteq> outFile"
  shows "list_all2 (archives_entry H inDir)
           (filter (\<lambda>e. isDirectory e \<or> isFile e) (items s))
           (zip_members (fst (zipDir H inDir outFile))) \<and>
         last (fs_ops (fst (zipDir H inDir outFile))) =
           OpWriteFile outFile (generateNodeStream (zip_members (fst (zipDir H inDir outFile))))"
proof -
  obtain wl rl where lw: "loop_world H inDir outFile s = (wl, rl)"
    by (cases "loop_world H inDir outFile s")
  from zipDir_success [OF assms(1) lw assms(2)] have rl: "rl = None" by simp
  from zipDir_final_world [OF assms(1) lw] assms(2) obtain tl where
    m: "zip_members (fst (zipDir H inDir outFile)) = zip_members wl" and
    t: "fs_ops (fst (zipDir H inDir outFile)) = fs_ops wl @ OpClose # tl" and
    u: "tl = [OpMkdir (dirname H outFile),
              OpWriteFile outFile (generateNodeStream (zip_members wl))]"
    by blast
  have l: "list_all2 (archives_entry H inDir) (filter (archived H outFile) (items s))
             (zip_members wl)"
    using loop_world_effects [OF lw] rl by blast
  have "filter (archived H outFile) (items s) =
          filter (\<lambda>e. isDirectory e \<or> isFile e) (items s)"
    using assms(3) by (intro filter_cong) (auto simp: archived_def)
  with l m have "list_all2 (archives_entry H inDir)
           (filter (\<lambda>e. isDirectory e \<or> isFile e) (items s))
           (zip_members (fst (zipDir H inDir outFile)))"
    by simp
  moreover have "last (fs_ops (fst (zipDir H inDir outFile))) =
           OpWriteFile outFile (generateNodeStream (zip_members (fst (zipDir H inDir outFile))))"
    by (simp add: t u m)
  ultimately show ?thesis by blast
qed

theorem zipDir_archives_files_and_directories_witness:
  "list_all2 (archives_entry dist_host ''/dist'')
     (filter (\<lambda>e. isDirectory e \<or> isFile e) (items (closing_stream dist_entries)))
     (zip_members (fst (zipDir dist_host ''/dist'' ''/dist.zip''))) \<and>
   last (fs_ops (fst (zipDir dist_host ''/dist'' ''/dist.zip''))) =
     OpWriteFile ''/dist.zip''
       (generateNodeStream (zip_members (fst (zipDir dist_host ''/dist'' ''/dist.zip'')))) \<and>
   map relativePath (zip_members (fst (zipDir dist_host ''/dist'' ''/dist.zip'')))
     = [''a.txt'', ''b'', ''foo.zip'', ''b/c.txt''] \<and>
   map content (zip_members (fst (zipDir dist_host ''/dist'' ''/dist.zip'')))
     = [Some hello, None, Some [80, 75, 5, 6], Some world_bytes]"
proof -
  have h1: "opendir dist_host ''/dist'' = Inr (closing_stream dist_entries)"
    by (rule dist_host_opendir)
  have h2: "snd (zipDir dist_host ''/dist'' ''/dist.zip'') = None" by code_simp
  have h3: "\<forall>e\<in>set (items (closing_stream dist_entries)). filename_of dist_host e \<noteq> ''/dist.zip''"
    by code_simp
  note t = zipDir_archives_files_and_directories [OF h1 h2 h3]
  have a: "map relativePath (zip_members (fst (zipDir dist_host ''/dist'' ''/dist.zip'')))
     = [''a.txt'', ''b'', ''foo.zip'', ''b/c.txt'']"
    by code_simp
  have b: "map content (zip_members (fst (zipDir dist_host ''/dist'' ''/dist.zip'')))
     = [Some hello, None, Some [80, 75, 5, 6], Some world_bytes]"
    by code_simp
  from t a b show ?thesis by blast
qed

text \<open>
  C7, as the code has it. The member name is what the host's \<^verbatim>\<open>path.relative\<close>
  returns, and nothing rewrites its separators. On a Windows host the file \<^verbatim>\<open>c.txt\<close> in
  the directory \<^verbatim>\<open>b\<close> is archived under a name with a backslash, not as \<^verbatim>\<open>b/c.txt\<close>:
\<close>

theorem windows_member_path_counterexample:
  "snd (zipDir win_host win_dist (win_dist @ ''.zip'')) = None \<and>
   dirent_in (win_dist @ [backslash] @ ''b'') ''c.txt'' KFile \<in> set win_entries \<and>
   map relativePath (zip_members (fst (zipDir win_host win_dist (win_dist @ ''.zip''))))
     = [''a.txt'', ''b'', ''b'' @ [backslash] @ ''c.txt''] \<and>
   ''b/c.txt'' \<notin> relativePath ` set (zip_members (fst (zipDir win_host win_dist (win_dist @ ''.zip'')))) \<and>
   CHR ''/'' \<notin> set (''b'' @ [backslash] @ ''c.txt'')"
  by code_simp

text \<open>
  C7, amended. Every member of every run comes from an entry of the stream: its name is
  \<^verbatim>\<open>path.relative(inDir, filename)\<close> of the host, its date is the \<^verbatim>\<open>mtime\<close> that
  \<^verbatim>\<open>fs.stat\<close> returned for the entry, it is a directory member exactly when the entry
  is a directory, and a directory member has null content. On a POSIX host, for an
  absolute source directory and an entry named \<open>n\<close> in the directory reached from it
  through the names \<open>segs\<close>, the member name is these names and \<open>n\<close> joined by forward
  slashes; it is not empty and does not end in a slash.
\<close>

theorem members_follow_entries:
  assumes "opendir H inDir = Inr s"
  shows "\<forall>m\<in>set (zip_members (fst (zipDir H inDir outFile))). \<exists>e\<in>set (items s).
           relativePath m = relative H inDir (filename_of H e) \<and>
           (case stat H (filename_of H e) of Inl err \<Rightarrow> False | Inr st \<Rightarrow> date m = mtime st) \<and>
           (dir m \<longleftrightarrow> isDirectory e) \<and>
           (dir m \<longrightarrow> content m = None) \<and>
           (\<forall>cwd segs.
              posix_paths cwd H \<and> inDir \<noteq> [] \<and> hd inDir = CHR ''/'' \<and>
              (\<forall>x\<in>set segs. file_name_ok x) \<and> file_name_ok (name e) \<and>
              nullish (parentPath e) (path e) = below inDir segs \<longrightarrow>
              relativePath m = join_with ''/'' (segs @ [name e]) \<and>
              relativePath m \<noteq> [] \<and> last (relativePath m) \<noteq> CHR ''/'')"
proof
  fix m
  assume mem: "m \<in> set (zip_members (fst (zipDir H inDir outFile)))"
  obtain wl rl where lw: "loop_world H inDir outFile s = (wl, rl)"
    by (cases "loop_world H inDir outFile s")
  have fw: "zip_members (fst (zipDir H inDir outFile)) = zip_members wl"
    using zipDir_final_world [OF assms lw] by simp
  have "\<forall>m\<in>set (zip_members wl). \<exists>e\<in>set (items s).
                archived H outFile e \<and> archives_entry H inDir e m"
    using loop_world_effects [OF lw] by blast
  with mem fw obtain e where e: "e \<in> set (items s)" and ae: "archives_entry H inDir e m"
    by auto
  have a: "relativePath m = relative H inDir (filename_of H e)"
    using ae by (simp add: archives_entry_def relativeFilename_of_def)
  have b: "case stat H (filename_of H e) of Inl err \<Rightarrow> False | Inr st \<Rightarrow> date m = mtime st"
    using ae by (simp add: archives_entry_def)
  have c: "dir m \<longleftrightarrow> isDirectory e" and d: "dir m \<longrightarrow> content m = None"
    using ae by (auto simp: archives_entry_def split: if_splits)
  have p: "\<forall>cwd segs.
              posix_paths cwd H \<and> inDir \<noteq> [] \<and> hd inDir = CHR ''/'' \<and>
              (\<forall>x\<in>set segs. file_name_ok x) \<and> file_name_ok (name e) \<and>
              nullish (parentPath e) (path e) = below inDir segs \<longrightarrow>
              relativePath m = join_with ''/'' (segs @ [name e]) \<and>
              relativePath m \<noteq> [] \<and> last (relativePath m) \<noteq> CHR ''/''"
  proof (intro allI impI)
    fix cwd segs
    assume h: "posix_paths cwd H \<and> inDir \<noteq> [] \<and> hd inDir = CHR ''/'' \<and>
              (\<forall>x\<in>set segs. file_name_ok x) \<and> file_name_ok (name e) \<and>
              nullish (parentPath e) (path e) = below inDir segs"
    then have r: "relativePath m = join_with ''/'' (segs @ [name e])"
      using posix_member_path [of cwd H inDir segs e] a by simp
    from h have ne: "name e \<noteq> []" and ns: "CHR ''/'' \<notin> set (name e)"
      by (simp_all add: file_name_ok_def)
    from ne ns have "last (name e) \<noteq> CHR ''/''"
      using last_in_set by metis
    with join_with_snoc_last [OF ne, of "''/''" segs] r
    show "relativePath m = join_with ''/'' (segs @ [name e]) \<and>
              relativePath m \<noteq> [] \<and> last (relativePath m) \<noteq> CHR ''/''"
      by simp
  qed
  from e a b c d p
  show "\<exists>e\<in>set (items s).
           relativePath m = relative H inDir (filename_of H e) \<and>
           (case stat H (filename_of H e) of Inl err \<Rightarrow> False | Inr st \<Rightarrow> date m = mtime st) \<and>
           (dir m \<longleftrightarrow> isDirectory e) \<and>
           (dir m \<longrightarrow> content m = None) \<and>
           (\<forall>cwd segs.
              posix_paths cwd H \<and> inDir \<noteq> [] \<and> hd inDir = CHR ''/'' \<and>
              (\<forall>x\<in>set segs. file_name_ok x) \<and> file_name_ok (name e) \<and>
              nullish (parentPath e) (path e) = below inDir segs \<longrightarrow>
              relativePath m = join_with ''/'' (segs @ [name e]) \<and>
              relativePath m \<noteq> [] \<and> last (relativePath m) \<noteq> CHR ''/'')"
    by blast
qed

theorem members_follow_entries_witness:
  "\<lparr> relativePath = ''b/c.txt'', content = Some world_bytes, dir = False, date = 2000 \<rparr>
     \<in> set (zip_members (fst (zipDir dist_host ''/dist'' ''/dist/foo.zip''))) \<and>
   (\<exists>e\<in>set dist_entries.
      name e = ''c.txt'' \<and> parentPath e = Some (below ''/dist'' [''b'']) \<and>
      ''b/c.txt'' = relative dist_host ''/dist'' (filename_of dist_host e) \<and>
      stat dist_host (filename_of dist_host e) = Inr \<lparr> mtime = 2000 \<rparr> \<and>
      ''b/c.txt'' = join_with ''/'' ([''b''] @ [name e]))"
proof -
  let ?m = "\<lparr> relativePath = ''b/c.txt'', content = Some world_bytes, dir = False, date = 2000 \<rparr>"
  let ?c = "dirent_in ''/dist/b'' ''c.txt'' KFile"
  have mem: "?m \<in> set (zip_members (fst (zipDir dist_host ''/dist'' ''/dist/foo.zip'')))"
    by code_simp
  from members_follow_entries [OF dist_host_opendir, of "''/dist''" "''/dist/foo.zip''"] mem
  obtain e where e: "e \<in> set (items (closing_stream dist_entries))"
    and r: "relativePath ?m = relative dist_host ''/dist'' (filename_of dist_host e)"
    and p: "\<forall>cwd segs.
              posix_paths cwd dist_host \<and> ''/dist'' \<noteq> [] \<and> hd ''/dist'' = CHR ''/'' \<and>
              (\<forall>x\<in>set segs. file_name_ok x) \<and> file_name_ok (name e) \<and>
              nullish (parentPath e) (path e) = below ''/dist'' segs \<longrightarrow>
              relativePath ?m = join_with ''/'' (segs @ [name e]) \<and>
              relativePath ?m \<noteq> [] \<and> last (relativePath ?m) \<noteq> CHR ''/''"
    by blast
  have only: "\<forall>e\<in>set (items (closing_stream dist_entries)).
                ''b/c.txt'' = relative dist_host ''/dist'' (filename_of dist_host e) \<longrightarrow> e = ?c"
    by code_simp
  from e r only have ec: "e = ?c" by simp
  have pp: "posix_paths ''/'' dist_host"
    by (simp add: posix_paths_def dist_host_def posix_table_host_def table_host_def)
  have h: "''/dist'' \<noteq> [] \<and> hd ''/dist'' = CHR ''/'' \<and>
           (\<forall>x\<in>set [''b'']. file_name_ok x) \<and> file_name_ok (name ?c) \<and>
           nullish (parentPath ?c) (path ?c) = below ''/dist'' [''b'']"
    by code_simp
  from p ec pp h have j: "relativePath ?m = join_with ''/'' ([''b''] @ [name ?c])"
    by blast
  have k: "name ?c = ''c.txt'' \<and> parentPath ?c = Some (below ''/dist'' [''b'']) \<and>
           stat dist_host (filename_of dist_host ?c) = Inr \<lparr> mtime = 2000 \<rparr> \<and>
           ?c \<in> set dist_entries"
    by code_simp
  from r ec have r': "''b/c.txt'' = relative dist_host ''/dist'' (filename_of dist_host ?c)"
    by simp
  from j have j': "''b/c.txt'' = join_with ''/'' ([''b''] @ [name ?c])" by simp
  from mem k r' j' show ?thesis by blast
qed

text \<open>
  C8. Two runs with the same destination, on hosts with the same path functions whose
  file systems answer \<^verbatim>\<open>stat\<close> and \<^verbatim>\<open>readFile\<close> alike on every path but the
  destination (the first run wrote it), both succeeding: when the two traversals yield
  the same entries apart from those resolving to the destination, in any order, the two
  archives hold the same members with the same names, kinds, contents and dates; when
  they yield them in the same order, the member lists are equal.
\<close>

theorem rerun_gives_same_members:
  assumes "resolve H2 = resolve H1" and "relative H2 = relative H1"
    and "\<forall>p. p \<noteq> outFile \<longrightarrow> stat H2 p = stat H1 p \<and> readFile H2 p = readFile H1 p"
    and "opendir H1 inDir = Inr s1" and "opendir H2 inDir = Inr s2"
    and "snd (zipDir H1 inDir outFile) = None" and "snd (zipDir H2 inDir outFile) = None"
  shows "(mset (filter (\<lambda>e. filename_of H1 e \<noteq> outFile) (items s1)) =
          mset (filter (\<lambda>e. filename_of H1 e \<noteq> outFile) (items s2)) \<longrightarrow>
            mset (zip_members (fst (zipDir H1 inDir outFile))) =
            mset (zip_members (fst (zipDir H2 inDir outFile)))) \<and>
         (filter (\<lambda>e. filename_of H1 e \<noteq> outFile) (items s1) =
          filter (\<lambda>e. filename_of H1 e \<noteq> outFile) (items s2) \<longrightarrow>
            zip_members (fst (zipDir H1 inDir outFile)) =
            zip_members (fst (zipDir H2 inDir outFile)))"
proof -
  let ?keep = "\<lambda>e. filename_of H1 e \<noteq> outFile"
  let ?kind = "\<lambda>e. isDirectory e \<or> isFile e"
  let ?g = "\<lambda>e. THE m. archives_entry H1 inDir e m"
  have same: "archived H2 outFile = archived H1 outFile"
    using assms(1) by (simp add: archived_def filename_of_def fun_eq_iff)
  have split: "filter (archived H1 outFile) xs = filter ?kind (filter ?keep xs)" for xs
    unfolding filter_filter by (rule filter_cong) (auto simp: archived_def)
  have l1: "list_all2 (archives_entry H1 inDir) (filter (archived H1 outFile) (items s1))
              (zip_members (fst (zipDir H1 inDir outFile)))"
    by (rule run_members [OF assms(4,6)])
  have "list_all2 (archives_entry H2 inDir) (filter (archived H1 outFile) (items s2))
              (zip_members (fst (zipDir H2 inDir outFile)))"
    using run_members [OF assms(5,7)] by (simp add: same)
  then have l2: "list_all2 (archives_entry H1 inDir) (filter (archived H1 outFile) (items s2))
              (zip_members (fst (zipDir H2 inDir outFile)))"
  proof (rule list.rel_mono_strong)
    fix e m
    assume "e \<in> set (filter (archived H1 outFile) (items s2))"
      and "m \<in> set (zip_members (fst (zipDir H2 inDir outFile)))"
      and a: "archives_entry H2 inDir e m"
    then have "filename_of H1 e \<noteq> outFile" by (simp add: archived_def)
    with a show "archives_entry H1 inDir e m"
      using archives_entry_agree [OF assms(1,2,3)] by blast
  qed
  have m1: "zip_members (fst (zipDir H1 inDir outFile)) =
              map ?g (filter ?kind (filter ?keep (items s1)))"
    using members_determined [OF l1] by (simp only: split)
  have m2: "zip_members (fst (zipDir H2 inDir outFile)) =
              map ?g (filter ?kind (filter ?keep (items s2)))"
    using members_determined [OF l2] by (simp only: split)
  show ?thesis
  proof (intro conjI impI)
    assume "mset (filter ?keep (items s1)) = mset (filter ?keep (items s2))"
    then have "mset (filter ?kind (filter ?keep (items s1))) =
               mset (filter ?kind (filter ?keep (items s2)))"
      by (simp only: mset_filter)
    then have "mset (map ?g (filter ?kind (filter ?keep (items s1)))) =
               mset (map ?g (filter ?kind (filter ?keep (items s2))))"
      by (simp only: mset_map)
    then show "mset (zip_members (fst (zipDir H1 inDir outFile))) =
               mset (zip_members (fst (zipDir H2 inDir outFile)))"
      by (simp only: m1 m2)
  next
    assume "filter ?keep (items s1) = filter ?keep (items s2)"
    then show "zip_members (fst (zipDir H1 inDir outFile)) =
               zip_members (fst (zipDir H2 inDir outFile))"
      by (simp only: m1 m2)
  qed
qed

theorem rerun_gives_same_members_witness:
  "stat fresh_host ''/dist/foo.zip'' = Inl ENOENT \<and>
   stat dist_host ''/dist/foo.zip'' = Inr \<lparr> mtime = 500 \<rparr> \<and>
   map relativePath (zip_members (fst (zipDir fresh_host ''/dist'' ''/dist/foo.zip'')))
     = [''b'', ''b/c.txt'', ''a.txt''] \<and>
   map relativePath (zip_members (fst (zipDir dist_host ''/dist'' ''/dist/foo.zip'')))
     = [''a.txt'', ''b'', ''b/c.txt''] \<and>
   mset (zip_members (fst (zipDir fresh_host ''/dist'' ''/dist/foo.zip''))) =
   mset (zip_members (fst (zipDir dist_host ''/dist'' ''/dist/foo.zip'')))"
proof -
  let ?keep = "\<lambda>e. filename_of fresh_host e \<noteq> ''/dist/foo.zip''"
  have h1: "resolve dist_host = resolve fresh_host"
    by (simp add: dist_host_def fresh_host_def posix_table_host_def table_host_def)
  have h2: "relative dist_host = relative fresh_host"
    by (simp add: dist_host_def fresh_host_def posix_table_host_def table_host_def)
  have h3: "\<forall>p. p \<noteq> ''/dist/foo.zip'' \<longrightarrow>
              stat dist_host p = stat fresh_host p \<and> readFile dist_host p = readFile fresh_host p"
    by (simp add: dist_host_def fresh_host_def posix_table_host_def table_host_def
          dist_files_def fresh_files_def)
  have h6: "snd (zipDir fresh_host ''/dist'' ''/dist/foo.zip'') = None" by code_simp
  have h7: "snd (zipDir dist_host ''/dist'' ''/dist/foo.zip'') = None" by code_simp
  have f1: "filter ?keep (items (closing_stream fresh_entries)) =
              [dirent_in ''/dist'' ''b'' KDirectory, dirent_in ''/dist/b'' ''c.txt'' KFile,
               dirent_in ''/dist'' ''latest'' KSymbolicLink, dirent_in ''/dist'' ''a.txt'' KFile]"
    by code_simp
  have f2: "filter ?keep (items (closing_stream dist_entries)) =
              [dirent_in ''/dist'' ''a.txt'' KFile, dirent_in ''/dist'' ''b'' KDirectory,
               dirent_in ''/dist'' ''latest'' KSymbolicLink, dirent_in ''/dist/b'' ''c.txt'' KFile]"
    by code_simp
  have h8: "mset (filter ?keep (items (closing_stream fresh_entries))) =
            mset (filter ?keep (items (closing_stream dist_entries)))"
    unfolding f1 f2 by (simp add: add_mset_commute)
  note t = rerun_gives_same_members
    [OF h1 h2 h3 fresh_host_opendir [of "''/dist''"] dist_host_opendir [of "''/dist''"] h6 h7]
  from t h8 have a: "mset (zip_members (fst (zipDir fresh_host ''/dist'' ''/dist/foo.zip''))) =
                     mset (zip_members (fst (zipDir dist_host ''/dist'' ''/dist/foo.zip'')))"
    by blast
  have b: "stat fresh_host ''/dist/foo.zip'' = Inl ENOENT" by code_simp
  have c: "stat dist_host ''/dist/foo.zip'' = Inr \<lparr> mtime = 500 \<rparr>" by code_simp
  have d: "map relativePath (zip_members (fst (zipDir fresh_host ''/dist'' ''/dist/foo.zip'')))
     = [''b'', ''b/c.txt'', ''a.txt'']" by code_simp
  have e: "map relativePath (zip_members (fst (zipDir dist_host ''/dist'' ''/dist/foo.zip'')))
     = [''a.txt'', ''b'', ''b/c.txt'']" by code_simp
  from a b c d e show ?thesis by blast
qed

end
